theory Spec2Isabelle
  imports Main "HOL-Library.AList"
begin

section \<open>Data model\<close>

text \<open>
  The repository holds two variants of the backend.  The \<^emph>\<open>worker variant\<close>
  (\<^verbatim>\<open>backend.bak.1763490862/app\<close>) keeps a Job table and a per-user byte counter in a
  database and sweeps the jobs with status \<^verbatim>\<open>done\<close>; the \<^emph>\<open>current variant\<close>
  (\<^verbatim>\<open>backend/app\<close>) writes payloads with a temporary file and sweeps the directory
  listing.  Both are embedded below, each function under the name it has in the source.

  Conventions of the embedding:
  \<^item> Python's unbounded \<^verbatim>\<open>int\<close> is \<^typ>\<open>int\<close>; a nullable column is an \<^typ>\<open>'a option\<close>.
  \<^item> A \<^verbatim>\<open>str\<close> or \<^verbatim>\<open>bytes\<close> value is a \<^typ>\<open>string\<close> holding its UTF-8 bytes, so
    \<^const>\<open>length\<close> is the byte length.
  \<^item> Time stamps (\<^verbatim>\<open>st_mtime\<close>, \<^verbatim>\<open>datetime.utcnow().timestamp()\<close>) are whole seconds
    since the epoch, an \<^typ>\<open>int\<close>; the clock is a parameter \<open>now\<close> of every function
    that reads it.
  \<^item> An exception is a value of type \<open>exn\<close>; a function that may raise returns
    \<open>exn + 'a\<close> with \<^const>\<open>Inl\<close> for the exception, together with the state it leaves
    behind when the failed call has already had an effect.
  \<^item> The SQL statements are read with PostgreSQL's meaning of \<^verbatim>\<open>COALESCE\<close> and
    \<^verbatim>\<open>GREATEST\<close>.
\<close>

datatype exn =
    FileNotFoundError
  | PermissionError
  | OSError string
  | ValueError
  | OverflowError
  | OperationalError
  | IntegrityError

text \<open>
  \<^verbatim>\<open>str(e)\<close>, as used by the worker variant's sweep to describe a caught exception.  The
  only \<^verbatim>\<open>OverflowError\<close> that reaches it is the one of the conversion of an \<^verbatim>\<open>int\<close> to a
  \<^verbatim>\<open>float\<close>.
\<close>

fun str_exn :: "exn \<Rightarrow> string" where
  "str_exn FileNotFoundError = ''No such file or directory''"
| "str_exn PermissionError = ''Permission denied''"
| "str_exn (OSError msg) = msg"
| "str_exn ValueError = ''year is out of range''"
| "str_exn OverflowError = ''int too large to convert to float''"
| "str_exn OperationalError = ''database unavailable''"
| "str_exn IntegrityError = ''duplicate key''"

text \<open>
  \<^verbatim>\<open>models.py\<close>: \<^verbatim>\<open>Job.status\<close> is a \<^verbatim>\<open>str\<close> whose values are documented as
  \<^verbatim>\<open>created/processing/done/deleted/failed\<close>; these are the only values the code
  writes or compares with.
\<close>

datatype status = Created | Processing | Done | Failed | Deleted

record user =
  plan :: "string option"
  storage_used_bytes :: "int option"

record job =
  job_id :: string
  owner_id :: "int option"
  filename :: "string option"
  size_bytes :: "int option"
  status :: status
  created_at :: int
  processed_at :: "int option"

text \<open>
  The database: \<open>db_up\<close> says whether a connection can be opened (every statement
  raises \<^const>\<open>OperationalError\<close> otherwise), \<open>users\<close> is the \<^verbatim>\<open>user\<close> table keyed by
  its primary key, \<open>jobs\<close> the rows of the Job table in the order a \<^verbatim>\<open>SELECT\<close>
  returns them.
\<close>

record db =
  db_up :: bool
  users :: "int \<rightharpoonup> user"
  jobs :: "job list"

text \<open>Python truthiness of an \<^verbatim>\<open>Optional[int]\<close>, an \<^verbatim>\<open>Optional[str]\<close>, and \<^verbatim>\<open>x or d\<close>.\<close>

definition truthy_int :: "int option \<Rightarrow> bool" where
  "truthy_int x = (case x of None \<Rightarrow> False | Some n \<Rightarrow> n \<noteq> 0)"

definition truthy_str :: "string option \<Rightarrow> bool" where
  "truthy_str x = (case x of None \<Rightarrow> False | Some s \<Rightarrow> s \<noteq> [])"

definition or_int :: "int option \<Rightarrow> int \<Rightarrow> int" where
  "or_int x d = (case x of None \<Rightarrow> d | Some n \<Rightarrow> if n = 0 then d else n)"

definition or_str :: "string option \<Rightarrow> string \<Rightarrow> string" where
  "or_str x d = (case x of None \<Rightarrow> d | Some s \<Rightarrow> if s = [] then d else s)"

text \<open>SQL \<^verbatim>\<open>COALESCE(x, d)\<close> and \<^verbatim>\<open>GREATEST(a, b)\<close> on integers.\<close>

definition coalesce :: "int option \<Rightarrow> int \<Rightarrow> int" where
  "coalesce x d = (case x of None \<Rightarrow> d | Some n \<Rightarrow> n)"

definition greatest :: "int \<Rightarrow> int \<Rightarrow> int" where
  "greatest a b = (if a < b then b else a)"

text \<open>The error answers of the HTTP handlers (\<^verbatim>\<open>HTTPException\<close>, \<^verbatim>\<open>JSONResponse\<close>).\<close>

datatype http_error = Http403 | Http404 | Http500

section \<open>The storage directory\<close>

text \<open>
  The file system is the storage directory: \<open>files\<close> maps a path, as the program
  writes it, to the entry stored there.  The list has one pair per path; its order is the
  order in which the directory is listed.

  What the code cannot see in advance is written into the state as faults:
  \<^item> \<open>root\<close>: whether the storage directory exists and can be listed;
  \<^item> \<open>medium\<close>: whether new data can be written: \<open>DiskFull k\<close> accepts \<open>k\<close> more bytes
    and then reports \<^verbatim>\<open>ENOSPC\<close>;
  \<^item> \<open>stat_raises\<close> of an entry: the exception a \<^verbatim>\<open>stat\<close> of it raises after the
    type check has passed (the file vanished or lost its permissions in between);
  \<^item> \<open>unlink_raises\<close> of an entry: the exception removing it raises.
\<close>

datatype kind = RegularFile | Directory

record fnode =
  kind :: kind
  mtime :: int
  content :: string
  stat_raises :: "exn option"
  unlink_raises :: "exn option"

datatype root_state = RootOk | RootMissing | RootUnreadable

datatype medium = Writable | PermissionDenied | DiskFull nat

record fs =
  root :: root_state
  medium :: medium
  files :: "(string \<times> fnode) list"

definition lookup :: "fs \<Rightarrow> string \<Rightarrow> fnode option" where
  "lookup f p = map_of (files f) p"

text \<open>\<^verbatim>\<open>os.path.isdir(STORAGE_DIR)\<close> and \<^verbatim>\<open>os.path.isfile(p)\<close>: neither raises.\<close>

definition os_path_isdir_root :: "fs \<Rightarrow> bool" where
  "os_path_isdir_root f = (root f \<noteq> RootMissing)"

definition os_path_isfile :: "fs \<Rightarrow> string \<Rightarrow> bool" where
  "os_path_isfile f p = (case lookup f p of None \<Rightarrow> False | Some n \<Rightarrow> kind n = RegularFile)"

text \<open>\<^verbatim>\<open>os.stat(p)\<close>, read by \<^verbatim>\<open>os.path.getmtime\<close>, \<^verbatim>\<open>os.path.getsize\<close> and \<^verbatim>\<open>Path.stat\<close>.\<close>

definition os_stat :: "fs \<Rightarrow> string \<Rightarrow> exn + fnode" where
  "os_stat f p =
     (case lookup f p of
        None \<Rightarrow> Inl FileNotFoundError
      | Some n \<Rightarrow> (case stat_raises n of Some e \<Rightarrow> Inl e | None \<Rightarrow> Inr n))"

definition os_path_getmtime :: "fs \<Rightarrow> string \<Rightarrow> exn + int" where
  "os_path_getmtime f p = (case os_stat f p of Inl e \<Rightarrow> Inl e | Inr n \<Rightarrow> Inr (mtime n))"

definition os_path_getsize :: "fs \<Rightarrow> string \<Rightarrow> exn + int" where
  "os_path_getsize f p =
     (case os_stat f p of Inl e \<Rightarrow> Inl e | Inr n \<Rightarrow> Inr (int (length (content n))))"

text \<open>\<^verbatim>\<open>os.remove(p)\<close> and \<^verbatim>\<open>Path.unlink()\<close>: the entry is gone, or the call raises.\<close>

definition os_remove :: "fs \<Rightarrow> string \<Rightarrow> exn + fs" where
  "os_remove f p =
     (case lookup f p of
        None \<Rightarrow> Inl FileNotFoundError
      | Some n \<Rightarrow>
          if kind n = Directory then Inl (OSError ''Is a directory'')
          else (case unlink_raises n of
                  Some e \<Rightarrow> Inl e
                | None \<Rightarrow> Inr (f\<lparr>files := AList.delete p (files f)\<rparr>)))"

section \<open>Usage Ledger (worker variant, \<^verbatim>\<open>tasks.py\<close>)\<close>

text \<open>
  \<^verbatim>\<open>UPDATE "user" SET storage_used_bytes = <e> WHERE id = :uid\<close>: the row with that key is
  rewritten, and a key with no row changes nothing.
\<close>

definition update_user_storage :: "int \<Rightarrow> (int option \<Rightarrow> int) \<Rightarrow> (int \<rightharpoonup> user) \<Rightarrow> (int \<rightharpoonup> user)" where
  "update_user_storage uid e us =
     (case us uid of
        None \<Rightarrow> us
      | Some u \<Rightarrow> us(uid \<mapsto> u\<lparr>storage_used_bytes := Some (e (storage_used_bytes u))\<rparr>))"

definition inc_user_storage :: "int \<Rightarrow> int \<Rightarrow> db \<Rightarrow> exn + db" where
  "inc_user_storage user_id delta d =
     (if \<not> db_up d then Inl OperationalError
      else Inr (d\<lparr>users := update_user_storage user_id (\<lambda>x. coalesce x 0 + delta) (users d)\<rparr>))"

definition dec_user_storage :: "int \<Rightarrow> int \<Rightarrow> db \<Rightarrow> exn + db" where
  "dec_user_storage user_id delta d =
     (if \<not> db_up d then Inl OperationalError
      else Inr (d\<lparr>users := update_user_storage user_id (\<lambda>x. greatest (coalesce x 0 - delta) 0) (users d)\<rparr>))"

text \<open>
  A sequence of ledger operations.  An operation that raises leaves the database as it
  was, and the caller goes on with the next one.
\<close>

datatype ledger_op = Increment int int | Decrement int int

fun ledger_step :: "ledger_op \<Rightarrow> db \<Rightarrow> db" where
  "ledger_step (Increment uid delta) d =
     (case inc_user_storage uid delta d of Inl e \<Rightarrow> d | Inr d' \<Rightarrow> d')"
| "ledger_step (Decrement uid delta) d =
     (case dec_user_storage uid delta d of Inl e \<Rightarrow> d | Inr d' \<Rightarrow> d')"

fun ledger_run :: "ledger_op list \<Rightarrow> db \<Rightarrow> db" where
  "ledger_run [] d = d"
| "ledger_run (x # xs) d = ledger_run xs (ledger_step x d)"

text \<open>The balance of an owner as the code reads it (\<^verbatim>\<open>COALESCE(storage_used_bytes, 0)\<close>).\<close>

definition balance :: "db \<Rightarrow> int \<Rightarrow> int" where
  "balance d uid = (case users d uid of None \<Rightarrow> 0 | Some u \<Rightarrow> coalesce (storage_used_bytes u) 0)"

text \<open>Every increment of the sequence adds a byte count, which is not negative.\<close>

fun byte_delta :: "ledger_op \<Rightarrow> bool" where
  "byte_delta (Increment uid delta) = (0 \<le> delta)"
| "byte_delta (Decrement uid delta) = True"

definition ledger_nonneg :: "db \<Rightarrow> bool" where
  "ledger_nonneg d = (\<forall>uid. 0 \<le> balance d uid)"

section \<open>Retention Sweeper (worker variant, \<^verbatim>\<open>tasks.py\<close>, \<^verbatim>\<open>cleanup_local_storage\<close>)\<close>

text \<open>A value of the dictionary a sweep returns.\<close>

datatype pyval = PyInt int | PyStr string | PyBool bool | PyDict "(string \<times> pyval) list"

text \<open>
  \<^verbatim>\<open>session.exec(select(Job).where(Job.status == "done")).all()\<close>, and the commit of
  \<^verbatim>\<open>job.status = "deleted"\<close>, which rewrites the row with the job's primary key.
\<close>

definition select_done_jobs :: "db \<Rightarrow> exn + job list" where
  "select_done_jobs d =
     (if \<not> db_up d then Inl OperationalError else Inr (filter (\<lambda>j. status j = Done) (jobs d)))"

definition commit_job_status :: "string \<Rightarrow> status \<Rightarrow> db \<Rightarrow> exn + db" where
  "commit_job_status jid st d =
     (if \<not> db_up d then Inl OperationalError
      else Inr (d\<lparr>jobs := map (\<lambda>j. if job_id j = jid then j\<lparr>status := st\<rparr> else j) (jobs d)\<rparr>))"

text \<open>
  The body of the loop for one job of the query's result, on the state
  (file system, database, \<^verbatim>\<open>deleted\<close>).  Every exception raised inside it is caught by
  \<^verbatim>\<open>except Exception: continue\<close>: the loop goes on with what had been done before the
  exception.
\<close>

definition cleanup_job :: "int \<Rightarrow> job \<Rightarrow> fs \<times> db \<times> nat \<Rightarrow> fs \<times> db \<times> nat" where
  "cleanup_job cutoff_ts j s =
     (case s of (f, d, deleted) \<Rightarrow>
        (case filename j of
           None \<Rightarrow> s
         | Some fn \<Rightarrow>
             if fn = [] then s
             else if \<not> os_path_isfile f fn then s
             else (case os_path_getmtime f fn of
                Inl e \<Rightarrow> s
              | Inr mt \<Rightarrow>
                  if mt < cutoff_ts then
                    (case os_path_getsize f fn of
                       Inl e \<Rightarrow> s
                     | Inr sz \<Rightarrow>
                         (case os_remove f fn of
                            Inl e \<Rightarrow> s
                          | Inr f' \<Rightarrow>
                              (case (if truthy_int (owner_id j)
                                     then dec_user_storage (or_int (owner_id j) 0) sz d
                                     else Inr d) of
                                 Inl e \<Rightarrow> (f', d, deleted + 1)
                               | Inr d' \<Rightarrow>
                                   (case commit_job_status (job_id j) Deleted d' of
                                      Inl e \<Rightarrow> (f', d', deleted + 1)
                                    | Inr d'' \<Rightarrow> (f', d'', deleted + 1)))))
                  else s)))"

fun cleanup_jobs :: "int \<Rightarrow> job list \<Rightarrow> fs \<times> db \<times> nat \<Rightarrow> fs \<times> db \<times> nat" where
  "cleanup_jobs cutoff_ts [] s = s"
| "cleanup_jobs cutoff_ts (j # js) s = cleanup_jobs cutoff_ts js (cleanup_job cutoff_ts j s)"

text \<open>
  The first statement of the function,
  \<^verbatim>\<open>cutoff_ts = datetime.utcnow().timestamp() - (RETENTION_DAYS * 86400)\<close>.  The product is an
  \<^verbatim>\<open>int\<close> of any size; subtracting it from a \<^verbatim>\<open>float\<close> converts it to a \<^verbatim>\<open>float\<close>, and
  the conversion raises \<^verbatim>\<open>OverflowError\<close> when the magnitude rounds to \<^verbatim>\<open>2**1024\<close> or
  more, that is from \<^verbatim>\<open>2**1024 - 2**970\<close> on.  Below that bound the difference is taken
  exactly, in whole seconds: the rounding of the \<^verbatim>\<open>float\<close> subtraction is not modelled.
\<close>

definition float_overflows :: "int \<Rightarrow> bool" where
  "float_overflows n = (2 ^ 1024 - 2 ^ 970 \<le> \<bar>n\<bar>)"

definition cutoff_ts :: "int \<Rightarrow> int \<Rightarrow> exn + int" where
  "cutoff_ts now retention_days =
     (if float_overflows (retention_days * 86400) then Inl OverflowError
      else Inr (now - retention_days * 86400))"

text \<open>
  The whole function, for \<^verbatim>\<open>RETENTION_DAYS = retention_days\<close> and the clock at \<open>now\<close>
  (the current variant has a function of the same name, so this one carries the suffix of
  its directory).  Its body is one \<^verbatim>\<open>try\<close> whose handler returns \<^verbatim>\<open>{"error": str(e)}\<close>;
  the cutoff is computed inside it, before the test of the directory.  The result is
  \<^const>\<open>Inr\<close> of the returned dictionary and the state left behind (an \<^const>\<open>Inl\<close>
  would be an exception reaching the caller).
\<close>

definition cleanup_local_storage_bak ::
  "int \<Rightarrow> int \<Rightarrow> fs \<times> db \<Rightarrow> exn + (string \<rightharpoonup> pyval) \<times> fs \<times> db" where
  "cleanup_local_storage_bak retention_days now s =
     (case s of (f, d) \<Rightarrow>
        (case cutoff_ts now retention_days of
           Inl e \<Rightarrow> Inr ([''error'' \<mapsto> PyStr (str_exn e)], f, d)
         | Inr cutoff \<Rightarrow>
             if \<not> os_path_isdir_root f
             then Inr ([''deleted'' \<mapsto> PyInt 0, ''reason'' \<mapsto> PyStr ''no_dir''], f, d)
             else (case select_done_jobs d of
                     Inl e \<Rightarrow> Inr ([''error'' \<mapsto> PyStr (str_exn e)], f, d)
                   | Inr js \<Rightarrow>
                       (case cleanup_jobs cutoff js (f, d, 0) of
                          (f', d', deleted) \<Rightarrow>
                            Inr ([''deleted'' \<mapsto> PyInt (int deleted)], f', d')))))"

section \<open>Quota Guard (worker variant, \<^verbatim>\<open>main.py\<close>, \<^verbatim>\<open>enqueue\<close>)\<close>

text \<open>
  The three byte ceilings are read from the environment (\<^verbatim>\<open>PLAN_FREE_BYTES\<close>,
  \<^verbatim>\<open>PLAN_BASIC_BYTES\<close>, \<^verbatim>\<open>PLAN_PRO_BYTES\<close>); \<open>default_quotas\<close> holds the defaults the
  source gives them.
\<close>

record quota_env =
  plan_free_bytes :: int
  plan_basic_bytes :: int
  plan_pro_bytes :: int

definition default_quotas :: quota_env where
  "default_quotas = \<lparr>plan_free_bytes = 524288000, plan_basic_bytes = 5368709120,
     plan_pro_bytes = 21474836480\<rparr>"

text \<open>The dictionary \<^verbatim>\<open>quotas\<close> and \<^verbatim>\<open>quotas.get(plan, quotas["free"])\<close>.\<close>

definition quotas :: "quota_env \<Rightarrow> (string \<rightharpoonup> int)" where
  "quotas env = [''free'' \<mapsto> plan_free_bytes env, ''basic'' \<mapsto> plan_basic_bytes env,
     ''pro'' \<mapsto> plan_pro_bytes env]"

definition quota_of :: "quota_env \<Rightarrow> string \<Rightarrow> int" where
  "quota_of env p = (case quotas env p of None \<Rightarrow> plan_free_bytes env | Some q \<Rightarrow> q)"

text \<open>The test of line 103: the request is refused when it holds.\<close>

definition exceeds_quota :: "quota_env \<Rightarrow> user \<Rightarrow> int \<Rightarrow> bool" where
  "exceeds_quota env u estimated_size =
     (or_int (storage_used_bytes u) 0 + estimated_size > quota_of env (or_str (plan u) ''free''))"

text \<open>
  \<^verbatim>\<open>enqueue\<close>: the size estimate is the payload's byte length plus 1024; on admission the
  fresh job id (a parameter here, \<^verbatim>\<open>uuid.uuid4()\<close> in the source) is returned and the job
  is handed to the queue.
\<close>

definition estimated_size :: "string \<Rightarrow> int" where
  "estimated_size text = max (int (length text) + 1024) 1024"

definition enqueue :: "quota_env \<Rightarrow> user \<Rightarrow> string \<Rightarrow> string \<Rightarrow> http_error + string" where
  "enqueue env u text new_job_id =
     (if exceeds_quota env u (estimated_size text) then Inl Http403 else Inr new_job_id)"

section \<open>Worker (worker variant, \<^verbatim>\<open>tasks.py\<close>, \<^verbatim>\<open>process_task\<close>)\<close>

text \<open>\<^verbatim>\<open>os.path.join(a, b)\<close> for two components.\<close>

definition os_path_join :: "string \<Rightarrow> string \<Rightarrow> string" where
  "os_path_join a b =
     (if b \<noteq> [] \<and> hd b = CHR ''/'' then b
      else if a = [] \<or> last a = CHR ''/'' then a @ b
      else a @ ''/'' @ b)"

text \<open>
  Writing through an open file.  \<open>put f p t c\<close> is the file system in which the regular
  file \<open>p\<close> holds \<open>c\<close>.  \<open>open_w\<close> is \<^verbatim>\<open>open(p, "w")\<close> (and \<^verbatim>\<open>"wb"\<close>): the file is
  created or truncated.  \<open>write_states\<close> lists the states the file system passes through
  while \<open>data\<close> reaches the file, one for every prefix that a reader may find there,
  and the exception that ends the write when the medium is full.
\<close>

definition put :: "fs \<Rightarrow> string \<Rightarrow> int \<Rightarrow> string \<Rightarrow> fs" where
  "put f p t c = f\<lparr>files := AList.update p
     \<lparr>kind = RegularFile, mtime = t, content = c, stat_raises = None, unlink_raises = None\<rparr>
     (files f)\<rparr>"

definition open_w :: "fs \<Rightarrow> string \<Rightarrow> int \<Rightarrow> exn + fs" where
  "open_w f p t =
     (if medium f = PermissionDenied then Inl PermissionError
      else (case lookup f p of
              Some n \<Rightarrow> if kind n = Directory then Inl (OSError ''Is a directory'')
                        else Inr (put f p t [])
            | None \<Rightarrow> Inr (put f p t [])))"

definition accepted :: "fs \<Rightarrow> string \<Rightarrow> nat" where
  "accepted f data =
     (case medium f of DiskFull k \<Rightarrow> min k (length data) | _ \<Rightarrow> length data)"

definition write_states :: "fs \<Rightarrow> string \<Rightarrow> int \<Rightarrow> string \<Rightarrow> exn option \<times> fs list" where
  "write_states f p t data =
     (if accepted f data < length data then Some (OSError ''No space left on device'') else None,
      map (\<lambda>k. put f p t (take k data)) [1..<Suc (accepted f data)])"

text \<open>
  The states of \<^verbatim>\<open>with open(filename, "w") as f: f.write(...)\<close>, the initial state
  first, and the exception that ended it, if any.
\<close>

definition write_in_place :: "fs \<Rightarrow> string \<Rightarrow> int \<Rightarrow> string \<Rightarrow> exn option \<times> fs list" where
  "write_in_place f p t data =
     (case open_w f p t of
        Inl e \<Rightarrow> (Some e, [f])
      | Inr f1 \<Rightarrow> (case write_states f1 p t data of (err, states) \<Rightarrow> (err, f # f1 # states)))"

text \<open>
  \<^verbatim>\<open>session.add(job); session.commit()\<close> of a new row, and the update of the row when the
  work is done (\<^verbatim>\<open>session.get(Job, job_id)\<close>, then the three assignments and the commit).
\<close>

definition insert_job :: "job \<Rightarrow> db \<Rightarrow> exn + db" where
  "insert_job j d =
     (if \<not> db_up d then Inl OperationalError
      else if job_id j \<in> set (map job_id (jobs d)) then Inl IntegrityError
      else Inr (d\<lparr>jobs := jobs d @ [j]\<rparr>))"

definition finish_job :: "string \<Rightarrow> int \<Rightarrow> int \<Rightarrow> db \<Rightarrow> exn + db" where
  "finish_job jid sz t d =
     (if \<not> db_up d then Inl OperationalError
      else Inr (d\<lparr>jobs := map (\<lambda>j. if job_id j = jid
                  then j\<lparr>size_bytes := Some sz, status := Done, processed_at := Some t\<rparr>
                  else j) (jobs d)\<rparr>))"

text \<open>\<^verbatim>\<open>os.makedirs(STORAGE_DIR, exist_ok=True)\<close>.\<close>

definition os_makedirs_root :: "fs \<Rightarrow> exn + fs" where
  "os_makedirs_root f =
     (if root f = RootMissing
      then (if medium f = PermissionDenied then Inl PermissionError else Inr (f\<lparr>root := RootOk\<rparr>))
      else Inr f)"

text \<open>
  The text written to the job's file; \<open>stamp\<close> is the ISO form of the time of writing.
\<close>

definition task_file_content :: "string \<Rightarrow> string \<Rightarrow> string \<Rightarrow> string" where
  "task_file_content jid stamp text =
     ''job_id: '' @ jid @ [CHR 0x0A] @ ''timestamp: '' @ stamp @ [CHR 0x0A, CHR 0x0A] @ text @ [CHR 0x0A]"

text \<open>
  \<^verbatim>\<open>process_task(text, job_id, owner_id)\<close>.  The environment gives \<open>storage_dir\<close>
  (\<^verbatim>\<open>OUT_DIR\<close>), \<open>remove_local\<close> (\<^verbatim>\<open>REMOVE_LOCAL_AFTER_UPLOAD\<close>), whether the upload to
  the object store succeeded (\<open>uploaded\<close>), the clock when the job starts (\<open>now\<close>, with its
  ISO form \<open>stamp\<close>) and after the work (\<open>later\<close>).  An exception that leaves the function
  is \<^const>\<open>Inl\<close>; the state is returned in both cases.  Of the object store's answer
  only the key \<^verbatim>\<open>uploaded\<close> is kept.
\<close>

definition process_task ::
  "string \<Rightarrow> bool \<Rightarrow> bool \<Rightarrow> int \<Rightarrow> string \<Rightarrow> int \<Rightarrow>
   string \<Rightarrow> string \<Rightarrow> int option \<Rightarrow> fs \<times> db \<Rightarrow> (exn + (string \<rightharpoonup> pyval)) \<times> fs \<times> db" where
  "process_task storage_dir remove_local uploaded now stamp later text jid owner s =
     (case s of (f, d) \<Rightarrow>
        (case os_makedirs_root f of
           Inl e \<Rightarrow> (Inl e, f, d)
         | Inr f0 \<Rightarrow>
             let fname = os_path_join storage_dir (jid @ ''.txt'');
                 d1 = (case insert_job \<lparr>job_id = jid, owner_id = owner, filename = Some fname,
                              size_bytes = Some 0, status = Processing, created_at = now,
                              processed_at = None\<rparr> d of
                         Inl e \<Rightarrow> d | Inr d' \<Rightarrow> d')
             in (case write_in_place f0 fname now (task_file_content jid stamp text) of
                   (Some e, states) \<Rightarrow> (Inl e, last states, d1)
                 | (None, states) \<Rightarrow>
                     let f1 = last states;
                         sz = (case os_path_getsize f1 fname of Inl e \<Rightarrow> 0 | Inr n \<Rightarrow> n)
                     in (case (if truthy_int owner
                               then (case inc_user_storage (or_int owner 0) sz d1 of
                                       Inl e \<Rightarrow> Inl e
                                     | Inr d2 \<Rightarrow>
                                         (case finish_job jid sz later d2 of
                                            Inl e \<Rightarrow> Inr d2 | Inr d3 \<Rightarrow> Inr d3))
                               else Inr d1) of
                           Inl e \<Rightarrow> (Inl e, f1, d1)
                         | Inr d4 \<Rightarrow>
                             let f2 = (if uploaded \<and> remove_local
                                       then (case os_remove f1 fname of Inl e \<Rightarrow> f1 | Inr f' \<Rightarrow> f')
                                       else f1)
                             in (Inr [''job_id'' \<mapsto> PyStr jid, ''local_path'' \<mapsto> PyStr fname,
                                      ''s3'' \<mapsto> PyDict [(''uploaded'', PyBool uploaded)]],
                                 f2, d4)))))"

text \<open>
  The same function in its two halves, before and after \<^verbatim>\<open>time.sleep(1)\<close>, since other
  requests are served while the worker sleeps.  The first half creates the directory,
  commits the row with the status \<^verbatim>\<open>processing\<close> in a transaction of its own and writes the
  file in place; it gives the exception that ended it, if any, the states of the file
  system during the call (the last one is the state in which the sleep begins) and the
  database.  The second half reads the size, credits the owner and, in a second
  transaction, sets \<^verbatim>\<open>done\<close> on the row with the job's id, whatever status it finds there;
  then come the upload and the removal of the local copy.
\<close>

definition process_task_start ::
  "string \<Rightarrow> int \<Rightarrow> string \<Rightarrow> string \<Rightarrow> string \<Rightarrow> int option \<Rightarrow> fs \<times> db \<Rightarrow>
   exn option \<times> fs list \<times> db" where
  "process_task_start storage_dir now stamp text jid owner s =
     (case s of (f, d) \<Rightarrow>
        (case os_makedirs_root f of
           Inl e \<Rightarrow> (Some e, [f], d)
         | Inr f0 \<Rightarrow>
             let fname = os_path_join storage_dir (jid @ ''.txt'');
                 d1 = (case insert_job \<lparr>job_id = jid, owner_id = owner, filename = Some fname,
                              size_bytes = Some 0, status = Processing, created_at = now,
                              processed_at = None\<rparr> d of
                         Inl e \<Rightarrow> d | Inr d' \<Rightarrow> d')
             in (case write_in_place f0 fname now (task_file_content jid stamp text) of
                   (err, states) \<Rightarrow> (err, states, d1))))"

definition process_task_end ::
  "string \<Rightarrow> bool \<Rightarrow> bool \<Rightarrow> int \<Rightarrow> string \<Rightarrow> int option \<Rightarrow> fs \<times> db \<Rightarrow>
   (exn + (string \<rightharpoonup> pyval)) \<times> fs \<times> db" where
  "process_task_end storage_dir remove_local uploaded later jid owner s =
     (case s of (f1, d1) \<Rightarrow>
        let fname = os_path_join storage_dir (jid @ ''.txt'');
            sz = (case os_path_getsize f1 fname of Inl e \<Rightarrow> 0 | Inr n \<Rightarrow> n)
        in (case (if truthy_int owner
                  then (case inc_user_storage (or_int owner 0) sz d1 of
                          Inl e \<Rightarrow> Inl e
                        | Inr d2 \<Rightarrow>
                            (case finish_job jid sz later d2 of
                               Inl e \<Rightarrow> Inr d2 | Inr d3 \<Rightarrow> Inr d3))
                  else Inr d1) of
              Inl e \<Rightarrow> (Inl e, f1, d1)
            | Inr d4 \<Rightarrow>
                let f2 = (if uploaded \<and> remove_local
                          then (case os_remove f1 fname of Inl e \<Rightarrow> f1 | Inr f' \<Rightarrow> f')
                          else f1)
                in (Inr [''job_id'' \<mapsto> PyStr jid, ''local_path'' \<mapsto> PyStr fname,
                         ''s3'' \<mapsto> PyDict [(''uploaded'', PyBool uploaded)]],
                    f2, d4)))"

section \<open>Delete API (worker variant, \<^verbatim>\<open>main.py\<close>, \<^verbatim>\<open>delete_file\<close>)\<close>

text \<open>
  \<^verbatim>\<open>delete_file(job_id, user)\<close> for the authenticated user \<open>uid\<close>.  The ledger update is
  a textual statement handed to \<^verbatim>\<open>session.execute\<close>; whether the installed SQLAlchemy
  accepts a plain string there is a fact of the deployment, the parameter \<open>executes\<close>.
  The update and the new status are committed together at the end, so an exception
  before the commit leaves the database as it was.
\<close>

definition delete_file ::
  "bool \<Rightarrow> string \<Rightarrow> int \<Rightarrow> fs \<times> db \<Rightarrow> (http_error + string) \<times> fs \<times> db" where
  "delete_file executes jid uid s =
     (case s of (f, d) \<Rightarrow>
        if \<not> db_up d then (Inl Http500, f, d)
        else (case find (\<lambda>j. job_id j = jid) (jobs d) of
           None \<Rightarrow> (Inl Http404, f, d)
         | Some j \<Rightarrow>
             if owner_id j \<noteq> Some uid then (Inl Http404, f, d)
             else
               (case (if truthy_str (filename j) \<and> os_path_isfile f (or_str (filename j) [])
                      then (case os_path_getsize f (or_str (filename j) []) of
                              Inl e \<Rightarrow> Inl f
                            | Inr sz \<Rightarrow>
                                (case os_remove f (or_str (filename j) []) of
                                   Inl e \<Rightarrow> Inl f
                                 | Inr f' \<Rightarrow>
                                     if executes
                                     then Inr (f', update_user_storage uid
                                                 (\<lambda>x. greatest (coalesce x 0 - sz) 0) (users d))
                                     else Inl f'))
                      else Inr (f, users d)) of
                  Inl f' \<Rightarrow> (Inl Http500, f', d)
                | Inr (f', us) \<Rightarrow>
                    (Inr jid, f',
                     d\<lparr>users := us,
                       jobs := map (\<lambda>r. if job_id r = jid then r\<lparr>status := Deleted\<rparr> else r)
                                (jobs d)\<rparr>))))"

section \<open>Payload Store (current variant, \<^verbatim>\<open>tasks.py\<close>, \<^verbatim>\<open>save_job_payload\<close>)\<close>

text \<open>
  Paths of \<^verbatim>\<open>pathlib\<close>, as strings in normal form: \<^verbatim>\<open>Path(a) / b\<close>, the last component
  \<^verbatim>\<open>name\<close>, its \<^verbatim>\<open>suffix\<close> (from the last dot, empty when that dot is the first or the
  last character), and \<^verbatim>\<open>with_suffix\<close>, which raises \<^verbatim>\<open>ValueError\<close> on an empty name.
\<close>

definition path_join :: "string \<Rightarrow> string \<Rightarrow> string" where
  "path_join a b = (if b \<noteq> [] \<and> hd b = CHR ''/'' then b else a @ ''/'' @ b)"

definition path_name :: "string \<Rightarrow> string" where
  "path_name p = rev (takeWhile (\<lambda>c. c \<noteq> CHR ''/'') (rev p))"

definition path_parent_part :: "string \<Rightarrow> string" where
  "path_parent_part p = rev (dropWhile (\<lambda>c. c \<noteq> CHR ''/'') (rev p))"

definition path_suffix :: "string \<Rightarrow> string" where
  "path_suffix name =
     (let ext = rev (takeWhile (\<lambda>c. c \<noteq> CHR ''.'') (rev name))
      in if CHR ''.'' \<notin> set name \<or> Suc (length ext) = length name \<or> ext = [] then []
         else CHR ''.'' # ext)"

definition with_suffix :: "string \<Rightarrow> string \<Rightarrow> exn + string" where
  "with_suffix p suffix =
     (let name = path_name p; old = path_suffix name
      in if name = [] then Inl ValueError
         else Inr (path_parent_part p @ take (length name - length old) name @ suffix))"

text \<open>
  \<^verbatim>\<open>tmp_path.replace(filepath)\<close>: one atomic step of the file system, after which the
  target holds what the source held and the source is gone.
\<close>

definition path_replace :: "fs \<Rightarrow> string \<Rightarrow> string \<Rightarrow> exn + fs" where
  "path_replace f src dst =
     (case lookup f src of
        None \<Rightarrow> Inl FileNotFoundError
      | Some n \<Rightarrow>
          (case lookup f dst of
             Some m \<Rightarrow>
               if kind m = Directory then Inl (OSError ''Is a directory'')
               else Inr (f\<lparr>files := AList.delete src (AList.update dst n (files f))\<rparr>)
           | None \<Rightarrow> Inr (f\<lparr>files := AList.delete src (AList.update dst n (files f))\<rparr>)))"

text \<open>
  The file operations of \<^verbatim>\<open>save_job_payload\<close> in their order: open the temporary
  path, write, close, rename.  The result lists every state of the file system from the
  call to the return, the initial one first, and the exception that ended the sequence.
\<close>

definition write_then_replace ::
  "fs \<Rightarrow> string \<Rightarrow> string \<Rightarrow> int \<Rightarrow> string \<Rightarrow> exn option \<times> fs list" where
  "write_then_replace f tmp_path filepath t data =
     (case open_w f tmp_path t of
        Inl e \<Rightarrow> (Some e, [f])
      | Inr f1 \<Rightarrow>
          (case write_states f1 tmp_path t data of
             (Some e, states) \<Rightarrow> (Some e, f # f1 # states)
           | (None, states) \<Rightarrow>
               (case path_replace (last (f1 # states)) tmp_path filepath of
                  Inl e \<Rightarrow> (Some e, f # f1 # states)
                | Inr f2 \<Rightarrow> (None, f # f1 # states @ [f2]))))"

text \<open>
  The best-effort attribution to the owner: \<open>None\<close> is a process without database
  helpers (\<^verbatim>\<open>_safe_db_session()\<close> returns \<^verbatim>\<open>None\<close>); with a database, the owner's row is
  read for update and \<^verbatim>\<open>(u.storage_used_bytes or 0) + size\<close> is committed; an exception is
  rolled back and swallowed.
\<close>

definition attribute_to_owner :: "int option \<Rightarrow> int \<Rightarrow> db option \<Rightarrow> db option" where
  "attribute_to_owner owner sz dbo =
     (case dbo of
        None \<Rightarrow> None
      | Some d \<Rightarrow>
          if truthy_int owner \<and> db_up d
          then Some (d\<lparr>users := update_user_storage (or_int owner 0)
                        (\<lambda>x. or_int x 0 + sz) (users d)\<rparr>)
          else Some d)"

text \<open>
  \<^verbatim>\<open>save_job_payload(payload_text, owner_id, filename_prefix)\<close> with \<^verbatim>\<open>STORAGE_PATH\<close>,
  the fresh \<^verbatim>\<open>uuid4\<close> string and the clock as parameters.  It returns the exception or
  the dictionary, the states of the file system during the call (the last one is the
  state at the return) and the database.
\<close>

definition save_job_payload ::
  "string \<Rightarrow> string \<Rightarrow> int \<Rightarrow> string \<Rightarrow> int option \<Rightarrow> string option \<Rightarrow> fs \<times> db option \<Rightarrow>
   (exn + (string \<rightharpoonup> pyval)) \<times> fs list \<times> db option" where
  "save_job_payload storage_path job_uuid now payload_text owner filename_prefix s =
     (case s of (f, dbo) \<Rightarrow>
        let prefix = or_str filename_prefix job_uuid;
            fname = prefix @ ''.txt'';
            filepath = path_join storage_path fname
        in (case with_suffix filepath ''.tmp'' of
              Inl e \<Rightarrow> (Inl e, [f], dbo)
            | Inr tmp_path \<Rightarrow>
                (case write_then_replace f tmp_path filepath now payload_text of
                   (Some e, states) \<Rightarrow> (Inl e, states, dbo)
                 | (None, states) \<Rightarrow>
                     (case os_path_getsize (last states) filepath of
                        Inl e \<Rightarrow> (Inl e, states, dbo)
                      | Inr sz \<Rightarrow>
                          (Inr [''job_id'' \<mapsto> PyStr job_uuid, ''filename'' \<mapsto> PyStr fname,
                                ''size_bytes'' \<mapsto> PyInt sz],
                           states, attribute_to_owner owner sz dbo)))))"

text \<open>
  \<^verbatim>\<open>api_enqueue\<close> (current variant, \<^verbatim>\<open>main.py\<close>): any exception of the save becomes the
  answer 500.
\<close>

definition api_enqueue ::
  "string \<Rightarrow> string \<Rightarrow> int \<Rightarrow> string \<Rightarrow> int option \<Rightarrow> fs \<times> db option \<Rightarrow>
   (http_error + string) \<times> fs \<times> db option" where
  "api_enqueue storage_path job_uuid now text owner s =
     (case save_job_payload storage_path job_uuid now text owner None s of
        (Inl e, states, dbo) \<Rightarrow> (Inl Http500, last states, dbo)
      | (Inr res, states, dbo) \<Rightarrow> (Inr job_uuid, last states, dbo))"

section \<open>Retention Sweeper (current variant, \<^verbatim>\<open>tasks.py\<close>, \<^verbatim>\<open>cleanup_local_storage\<close>)\<close>

text \<open>
  The \<^verbatim>\<open>datetime\<close> arithmetic of the cutoff, in seconds since the epoch.  A \<^verbatim>\<open>datetime\<close>
  lies between the years 1 and 9999 and a \<^verbatim>\<open>timedelta\<close> has fewer than \<open>10\<^sup>9\<close> days;
  outside these ranges the constructor and the subtraction raise.
\<close>

definition datetime_min :: int where
  "datetime_min = - 62135596800"

definition datetime_max :: int where
  "datetime_max = 253402300799"

definition timedelta_days :: "int \<Rightarrow> exn + int" where
  "timedelta_days n = (if \<bar>n\<bar> > 999999999 then Inl OverflowError else Inr (n * 86400))"

definition datetime_sub :: "int \<Rightarrow> int \<Rightarrow> exn + int" where
  "datetime_sub t delta =
     (if t - delta < datetime_min \<or> datetime_max < t - delta then Inl OverflowError
      else Inr (t - delta))"

definition datetime_fromtimestamp :: "int \<Rightarrow> exn + int" where
  "datetime_fromtimestamp t =
     (if t < datetime_min \<or> datetime_max < t then Inl ValueError else Inr t)"

text \<open>
  \<^verbatim>\<open>Path(STORAGE_PATH).iterdir()\<close>: the paths of the entries, or the exception of a
  directory that is missing or cannot be listed.  \<^verbatim>\<open>p.is_file()\<close> is the type check.
\<close>

definition iterdir :: "fs \<Rightarrow> exn + string list" where
  "iterdir f =
     (case root f of
        RootOk \<Rightarrow> Inr (map fst (files f))
      | RootMissing \<Rightarrow> Inl FileNotFoundError
      | RootUnreadable \<Rightarrow> Inl PermissionError)"

definition path_is_file :: "fs \<Rightarrow> string \<Rightarrow> bool" where
  "path_is_file f p = (case lookup f p of None \<Rightarrow> False | Some n \<Rightarrow> kind n = RegularFile)"

text \<open>
  The inner \<^verbatim>\<open>try\<close> of the loop: \<^verbatim>\<open>FileNotFoundError\<close> and \<^verbatim>\<open>PermissionError\<close> are
  answered by \<^verbatim>\<open>continue\<close>; any other exception leaves the loop (\<^const>\<open>Inl\<close>).
\<close>

definition skip_or_raise :: "exn \<Rightarrow> fs \<times> nat \<Rightarrow> exn + fs \<times> nat" where
  "skip_or_raise e s = (if e = FileNotFoundError \<or> e = PermissionError then Inr s else Inl e)"

definition cleanup_entry :: "int \<Rightarrow> string \<Rightarrow> fs \<times> nat \<Rightarrow> exn + fs \<times> nat" where
  "cleanup_entry cutoff p s =
     (case s of (f, deleted) \<Rightarrow>
        if \<not> path_is_file f p then Inr s
        else (case os_stat f p of
                Inl e \<Rightarrow> skip_or_raise e s
              | Inr n \<Rightarrow>
                  (case datetime_fromtimestamp (mtime n) of
                     Inl e \<Rightarrow> skip_or_raise e s
                   | Inr mt \<Rightarrow>
                       if mt < cutoff then
                         (case os_remove f p of
                            Inl e \<Rightarrow> skip_or_raise e s
                          | Inr f' \<Rightarrow> Inr (f', deleted + 1))
                       else Inr s)))"

text \<open>
  The \<^verbatim>\<open>for\<close> loop over the listing.  An exception that leaves it comes with the state
  reached so far, since the files removed before stay removed.
\<close>

fun cleanup_entries :: "int \<Rightarrow> string list \<Rightarrow> fs \<times> nat \<Rightarrow> exn option \<times> fs \<times> nat" where
  "cleanup_entries cutoff [] s = (None, s)"
| "cleanup_entries cutoff (p # ps) s =
     (case cleanup_entry cutoff p s of
        Inl e \<Rightarrow> (Some e, s)
      | Inr s' \<Rightarrow> cleanup_entries cutoff ps s')"

text \<open>
  The best-effort reflection in the database: every job with a file name whose path
  \<^verbatim>\<open>Path(STORAGE_PATH) / filename\<close> no longer exists gets the status \<^verbatim>\<open>deleted\<close>.  An empty
  file name denotes the storage directory itself.
\<close>

definition path_exists :: "fs \<Rightarrow> string \<Rightarrow> string \<Rightarrow> bool" where
  "path_exists f storage_path fn =
     (if fn = [] then root f \<noteq> RootMissing else lookup f (path_join storage_path fn) \<noteq> None)"

definition reflect_deletions :: "string \<Rightarrow> fs \<Rightarrow> db option \<Rightarrow> db option" where
  "reflect_deletions storage_path f dbo =
     (case dbo of
        None \<Rightarrow> None
      | Some d \<Rightarrow>
          if \<not> db_up d then Some d
          else Some (d\<lparr>jobs := map (\<lambda>r. case filename r of
                          None \<Rightarrow> r
                        | Some fn \<Rightarrow> if path_exists f storage_path fn then r
                                    else r\<lparr>status := Deleted\<rparr>) (jobs d)\<rparr>))"

text \<open>
  The whole function.  The source opens with \<^verbatim>\<open>if RETENTION_DAYS <= 0: pass\<close>, a test
  with no effect, and computes the cutoff before the \<^verbatim>\<open>try\<close>, so that an exception of
  the date arithmetic reaches the caller (\<^const>\<open>Inl\<close>).  An exception of the loop is
  answered by \<^verbatim>\<open>return {"deleted": 0}\<close>.
\<close>

definition cleanup_local_storage ::
  "string \<Rightarrow> int \<Rightarrow> int \<Rightarrow> fs \<times> db option \<Rightarrow> exn + (string \<rightharpoonup> pyval) \<times> fs \<times> db option" where
  "cleanup_local_storage storage_path retention_days now s =
     (case s of (f, dbo) \<Rightarrow>
        (case timedelta_days retention_days of
           Inl e \<Rightarrow> Inl e
         | Inr delta \<Rightarrow>
             (case datetime_sub now delta of
                Inl e \<Rightarrow> Inl e
              | Inr cutoff \<Rightarrow>
                  (case iterdir f of
                     Inl e \<Rightarrow> Inr ([''deleted'' \<mapsto> PyInt 0], f, dbo)
                   | Inr ps \<Rightarrow>
                       (case cleanup_entries cutoff ps (f, 0) of
                          (Some e, f', deleted) \<Rightarrow> Inr ([''deleted'' \<mapsto> PyInt 0], f', dbo)
                        | (None, f', deleted) \<Rightarrow>
                            Inr ([''deleted'' \<mapsto> PyInt (int deleted)], f',
                                 reflect_deletions storage_path f' dbo))))))"

text \<open>
  \<^verbatim>\<open>cleaner.py\<close>: one round of the loop that calls the sweep.  The current variant
  catches what the sweep raises and goes on; the worker variant calls it unguarded.
\<close>

definition cleaner_round ::
  "string \<Rightarrow> int \<Rightarrow> int \<Rightarrow> fs \<times> db option \<Rightarrow> fs \<times> db option" where
  "cleaner_round storage_path retention_days now s =
     (case cleanup_local_storage storage_path retention_days now s of
        Inl e \<Rightarrow> s
      | Inr (res, f', dbo') \<Rightarrow> (f', dbo'))"

section \<open>Sequences of operations\<close>

text \<open>
  The operations that write the Job table, as events that follow one another in any
  order: the first half of a run of the worker (\<^verbatim>\<open>process_task\<close> up to its sleep, with its
  environment), its second half, the delete API, a sweep of the worker variant and a sweep
  of the current variant on the same tables.  A delete request or a sweep may thus fall
  between the two halves of a run.  An exception ends the operation and leaves the state it
  had reached.
\<close>

record task_env =
  storage_dir :: string
  remove_local :: bool
  uploaded :: bool
  started :: int
  stamp :: string
  finished :: int

datatype event =
    ProcessStart task_env string string "int option"
  | ProcessEnd task_env string "int option"
  | DeleteFile bool string int
  | Sweep int int
  | SweepCurrent string int int

fun apply_event :: "event \<Rightarrow> fs \<times> db \<Rightarrow> fs \<times> db" where
  "apply_event (ProcessStart env text jid owner) s =
     (case process_task_start (storage_dir env) (started env) (stamp env) text jid owner s of
        (err, states, d') \<Rightarrow> (last states, d'))"
| "apply_event (ProcessEnd env jid owner) s =
     (case process_task_end (storage_dir env) (remove_local env) (uploaded env) (finished env)
             jid owner s of
        (r, f', d') \<Rightarrow> (f', d'))"
| "apply_event (DeleteFile executes jid uid) s =
     (case delete_file executes jid uid s of (r, f', d') \<Rightarrow> (f', d'))"
| "apply_event (Sweep days now) s =
     (case cleanup_local_storage_bak days now s of
        Inl e \<Rightarrow> s
      | Inr (res, f', d') \<Rightarrow> (f', d'))"
| "apply_event (SweepCurrent sp days now) s =
     (case cleanup_local_storage sp days now (fst s, Some (snd s)) of
        Inl e \<Rightarrow> s
      | Inr (res, f', dbo') \<Rightarrow> (f', case dbo' of None \<Rightarrow> snd s | Some d' \<Rightarrow> d'))"

fun run_events :: "event list \<Rightarrow> fs \<times> db \<Rightarrow> fs \<times> db" where
  "run_events [] s = s"
| "run_events (e # es) s = run_events es (apply_event e s)"

section \<open>Vocabulary of the properties\<close>

text \<open>
  The age of a file at a sweep and the retention threshold in seconds.  A file is
  \<open>removable\<close> when it is a regular file that can be examined and unlinked, and
  \<open>sweepable\<close> when it is removable and strictly older than the threshold.
\<close>

definition age :: "int \<Rightarrow> fnode \<Rightarrow> int" where
  "age now n = now - mtime n"

definition retention_threshold :: "int \<Rightarrow> int" where
  "retention_threshold retention_days = retention_days * 86400"

definition removable :: "fnode \<Rightarrow> bool" where
  "removable n = (kind n = RegularFile \<and> stat_raises n = None \<and> unlink_raises n = None)"

definition sweepable :: "int \<Rightarrow> int \<Rightarrow> fs \<Rightarrow> string \<Rightarrow> bool" where
  "sweepable now days f p =
     (case lookup f p of None \<Rightarrow> False
      | Some n \<Rightarrow> removable n \<and> retention_threshold days < age now n)"

definition job_swept :: "int \<Rightarrow> int \<Rightarrow> fs \<Rightarrow> job \<Rightarrow> bool" where
  "job_swept now days f j =
     (case filename j of None \<Rightarrow> False | Some fn \<Rightarrow> fn \<noteq> [] \<and> sweepable now days f fn)"

definition file_size :: "fs \<Rightarrow> string option \<Rightarrow> int" where
  "file_size f p = (case p of None \<Rightarrow> 0 | Some fn \<Rightarrow>
      (case lookup f fn of None \<Rightarrow> 0 | Some n \<Rightarrow> int (length (content n))))"

definition settle :: "job \<Rightarrow> int \<Rightarrow> db \<Rightarrow> db" where
  "settle j sz d = d\<lparr>users := (if truthy_int (owner_id j)
        then update_user_storage (or_int (owner_id j) 0) (\<lambda>x. greatest (coalesce x 0 - sz) 0) (users d)
        else users d),
      jobs := map (\<lambda>r. if job_id r = job_id j then r\<lparr>status := Deleted\<rparr> else r) (jobs d)\<rparr>"

definition rm :: "string option \<Rightarrow> fs \<Rightarrow> fs" where
  "rm p f = (case p of None \<Rightarrow> f | Some fn \<Rightarrow> f\<lparr>files := AList.delete fn (files f)\<rparr>)"

fun job_files :: "job list \<Rightarrow> string list" where
  "job_files [] = []"
| "job_files (j # js) = (case filename j of None \<Rightarrow> job_files js | Some fn \<Rightarrow> fn # job_files js)"

definition swept_jobs :: "int \<Rightarrow> int \<Rightarrow> fs \<Rightarrow> job list \<Rightarrow> job list" where
  "swept_jobs now days f js = filter (job_swept now days f) js"

fun rm_all :: "job list \<Rightarrow> fs \<Rightarrow> fs" where
  "rm_all [] f = f"
| "rm_all (j # js) f = rm_all js (rm (filename j) f)"

fun settle_all :: "fs \<Rightarrow> job list \<Rightarrow> db \<Rightarrow> db" where
  "settle_all f0 [] d = d"
| "settle_all f0 (j # js) d = settle_all f0 js (settle j (file_size f0 (filename j)) d)"

definition done_jobs :: "db \<Rightarrow> job list" where
  "done_jobs d = filter (\<lambda>j. status j = Done) (jobs d)"

text \<open>
  The jobs of \<open>js\<close> whose file a sweep removes and whose owner is \<open>uid\<close> (an owner id of 0
  counts as no owner), and the bytes of their files, read before the sweep.
\<close>

definition owned_swept :: "int \<Rightarrow> int \<Rightarrow> fs \<Rightarrow> job list \<Rightarrow> int \<Rightarrow> job list" where
  "owned_swept now days f js uid =
     filter (\<lambda>j. job_swept now days f j \<and> owner_id j = Some uid \<and> uid \<noteq> 0) js"

definition reclaimed :: "int \<Rightarrow> int \<Rightarrow> fs \<Rightarrow> job list \<Rightarrow> int \<Rightarrow> int" where
  "reclaimed now days f js uid =
     sum_list (map (\<lambda>j. file_size f (filename j)) (owned_swept now days f js uid))"

text \<open>
  The current variant's loop skips a candidate whose examination or removal raises
  \<^verbatim>\<open>FileNotFoundError\<close> or \<^verbatim>\<open>PermissionError\<close>, the two classes its handler names.  At
  a given cutoff an entry \<open>raises_other\<close> when the body of the loop raises on it an
  exception of another class: it is a regular file, and its \<^verbatim>\<open>stat\<close> raises such an
  exception, or its modification time is not a \<^verbatim>\<open>datetime\<close>, or it is older than the
  cutoff and its removal raises such an exception.  A directory is \<open>quiet\<close> when none of
  its entries does.  The cutoff is representable when the date arithmetic that computes it
  stays in range.
\<close>

definition handled :: "exn \<Rightarrow> bool" where
  "handled e = (e = FileNotFoundError \<or> e = PermissionError)"

definition raises_other :: "int \<Rightarrow> fnode \<Rightarrow> bool" where
  "raises_other cutoff n =
     (kind n = RegularFile \<and>
      (case stat_raises n of
         Some e \<Rightarrow> \<not> handled e
       | None \<Rightarrow>
           mtime n < datetime_min \<or> datetime_max < mtime n \<or>
           (mtime n < cutoff \<and>
            (case unlink_raises n of Some e \<Rightarrow> \<not> handled e | None \<Rightarrow> False))))"

definition rm_path :: "string \<Rightarrow> fs \<Rightarrow> fs" where
  "rm_path p f = f\<lparr>files := AList.delete p (files f)\<rparr>"

definition quiet :: "int \<Rightarrow> fs \<Rightarrow> bool" where
  "quiet cutoff f = (\<forall>(p, n) \<in> set (files f). \<not> raises_other cutoff n)"

definition cutoff_representable :: "int \<Rightarrow> int \<Rightarrow> bool" where
  "cutoff_representable now days =
     (\<bar>days\<bar> \<le> 999999999 \<and> datetime_min \<le> now - days * 86400 \<and>
      now - days * 86400 \<le> datetime_max)"

text \<open>
  A sweep runs its loop to the end when no sweep-level error stops it.  Worker variant:
  the cutoff can be computed, the storage directory exists and the database answers.
  Current variant: the cutoff is representable, the directory can be listed and no entry
  raises an exception that the inner handler does not name.
\<close>

definition loop_runs_bak :: "int \<Rightarrow> fs \<Rightarrow> db \<Rightarrow> bool" where
  "loop_runs_bak days f d =
     (\<not> float_overflows (days * 86400) \<and> os_path_isdir_root f \<and> db_up d)"

definition loop_runs :: "int \<Rightarrow> int \<Rightarrow> fs \<Rightarrow> bool" where
  "loop_runs now days g =
     (cutoff_representable now days \<and> root g = RootOk \<and> quiet (now - days * 86400) g)"

text \<open>An entry is \<open>faulty\<close> when examining or removing it raises.\<close>

definition faulty :: "fnode \<Rightarrow> bool" where
  "faulty n = (stat_raises n \<noteq> None \<or> unlink_raises n \<noteq> None)"

text \<open>
  The order of the life cycle: \<^verbatim>\<open>created\<close> and \<^verbatim>\<open>processing\<close>, then \<^verbatim>\<open>done\<close> and
  \<^verbatim>\<open>failed\<close>, then \<^verbatim>\<open>deleted\<close>.  A status moves forward when it stays or its rank grows.
  \<open>rows_forward js js'\<close>: every row of \<open>js\<close> is still in \<open>js'\<close>, at its place and with its
  job id, and its status has moved forward.  A row is \<open>marked\<close> when it is unchanged or
  only its status was set to \<^verbatim>\<open>deleted\<close>.
\<close>

fun rank :: "status \<Rightarrow> nat" where
  "rank Created = 0"
| "rank Processing = 0"
| "rank Done = 1"
| "rank Failed = 1"
| "rank Deleted = 2"

definition forward :: "status \<Rightarrow> status \<Rightarrow> bool" where
  "forward s s' = (s' = s \<or> rank s < rank s')"

definition rows_forward :: "job list \<Rightarrow> job list \<Rightarrow> bool" where
  "rows_forward js js' =
     (length js \<le> length js' \<and>
      list_all (\<lambda>i. job_id (js' ! i) = job_id (js ! i) \<and> forward (status (js ! i)) (status (js' ! i)))
        [0..<length js])"

definition marked :: "job \<Rightarrow> job \<Rightarrow> bool" where
  "marked r r' = (r' = r \<or> r' = r\<lparr>status := Deleted\<rparr>)"

definition without_jobs :: "fs \<times> db \<times> nat \<Rightarrow> fs \<times> db \<times> nat" where
  "without_jobs s = (case s of (f, d, n) \<Rightarrow> (f, d\<lparr>jobs := []\<rparr>, n))"

definition extends :: "job list \<Rightarrow> job list \<Rightarrow> bool" where
  "extends js js' = (take (length js) js' = js)"

text \<open>
  The second half of \<^verbatim>\<open>process_task\<close> writes \<^verbatim>\<open>done\<close> without reading the status.  It
  \<open>finds_live\<close> its job when every row with the job's id is still \<^verbatim>\<open>created\<close>,
  \<^verbatim>\<open>processing\<close> or \<^verbatim>\<open>done\<close> at the moment it runs; a sequence of operations is
  \<open>undisturbed\<close> when each of its second halves finds its job so.
\<close>

fun finds_live :: "event \<Rightarrow> db \<Rightarrow> bool" where
  "finds_live (ProcessEnd env jid owner) d =
     list_all (\<lambda>row. job_id row = jid \<longrightarrow>
        status row = Created \<or> status row = Processing \<or> status row = Done) (jobs d)"
| "finds_live e d = True"

fun undisturbed :: "event list \<Rightarrow> fs \<times> db \<Rightarrow> bool" where
  "undisturbed [] s = True"
| "undisturbed (e # es) s = (finds_live e (snd s) \<and> undisturbed es (apply_event e s))"

text \<open>
  The rows of a job id, a sequence of sweeps of the worker variant given by their
  retention periods and clocks, and the tables in which no finished job has the id
  \<open>jid\<close> or names the file \<open>fname\<close>.
\<close>

definition rows_of :: "string \<Rightarrow> db \<Rightarrow> job list" where
  "rows_of jid d = filter (\<lambda>row. job_id row = jid) (jobs d)"

definition sweeps_of :: "(int \<times> int) list \<Rightarrow> event list" where
  "sweeps_of xs = map (\<lambda>(days, now). Sweep days now) xs"

definition unnamed :: "string \<Rightarrow> string \<Rightarrow> db \<Rightarrow> bool" where
  "unnamed jid fname d =
     list_all (\<lambda>row. status row = Done \<longrightarrow> job_id row \<noteq> jid \<and> filename row \<noteq> Some fname) (jobs d)"

text \<open>
  The final location of a saved payload; a path that holds a payload, as a regular file
  with exactly these bytes; a state in which the final location is as it was before the
  save or holds the whole payload; and the exceptions of an unwritable medium, the
  \<^verbatim>\<open>OSError\<close> of \<^verbatim>\<open>open\<close> and \<^verbatim>\<open>write\<close> that the specification calls a storage write
  error.
\<close>

definition holds_payload :: "fs \<Rightarrow> string \<Rightarrow> string \<Rightarrow> bool" where
  "holds_payload s p data =
     (case lookup s p of None \<Rightarrow> False | Some n \<Rightarrow> kind n = RegularFile \<and> content n = data)"

definition final_path :: "string \<Rightarrow> string \<Rightarrow> string option \<Rightarrow> string" where
  "final_path storage_path job_uuid filename_prefix =
     path_join storage_path (or_str filename_prefix job_uuid @ ''.txt'')"

fun storage_write_error :: "exn \<Rightarrow> bool" where
  "storage_write_error PermissionError = True"
| "storage_write_error (OSError msg) = True"
| "storage_write_error e = False"

definition untouched_or_complete :: "fs \<Rightarrow> string \<Rightarrow> string \<Rightarrow> fs \<Rightarrow> bool" where
  "untouched_or_complete f p data s = (lookup s p = lookup f p \<or> holds_payload s p data)"

section \<open>Example states\<close>

text \<open>
  The states at which the properties below are instantiated: a regular file without
  faults, a finished job of an owner, and the storage directory of the specification's
  example with a file of one day and a file of ten days, both of owner 1, whose ledger
  stands at 100 bytes.  \<open>edge_fs\<close> holds one file whose age is exactly seven days.
\<close>

definition regular_file :: "int \<Rightarrow> string \<Rightarrow> fnode" where
  "regular_file t c =
     \<lparr>kind = RegularFile, mtime = t, content = c, stat_raises = None, unlink_raises = None\<rparr>"

definition done_job :: "string \<Rightarrow> int \<Rightarrow> string \<Rightarrow> job" where
  "done_job jid owner fn =
     \<lparr>job_id = jid, owner_id = Some owner, filename = Some fn, size_bytes = Some 0,
      status = Done, created_at = 0, processed_at = Some 1\<rparr>"

definition ex_now :: int where
  "ex_now = 1700000000"

definition ex_fs :: fs where
  "ex_fs = \<lparr>root = RootOk, medium = Writable,
     files = [(''/data/storage/young.txt'', regular_file (ex_now - 86400) ''young''),
              (''/data/storage/old.txt'', regular_file (ex_now - 864000) ''old file'')]\<rparr>"

definition ex_db :: db where
  "ex_db = \<lparr>db_up = True,
     users = [1 \<mapsto> \<lparr>plan = Some ''free'', storage_used_bytes = Some 100\<rparr>],
     jobs = [done_job ''young'' 1 ''/data/storage/young.txt'',
             done_job ''old'' 1 ''/data/storage/old.txt'']\<rparr>"

definition edge_fs :: fs where
  "edge_fs = \<lparr>root = RootOk, medium = Writable,
     files = [(''/data/storage/edge.txt'', regular_file (ex_now - 7 * 86400) ''edge'')]\<rparr>"

definition edge_db :: db where
  "edge_db = \<lparr>db_up = True,
     users = [1 \<mapsto> \<lparr>plan = Some ''free'', storage_used_bytes = Some 100\<rparr>],
     jobs = [done_job ''edge'' 1 ''/data/storage/edge.txt'']\<rparr>"

text \<open>
  Four files of ten days: two that can be removed, one that vanishes after the type check
  and one that cannot be unlinked.
\<close>

definition faulty_fs :: fs where
  "faulty_fs = \<lparr>root = RootOk, medium = Writable,
     files = [(''/data/storage/a.txt'', regular_file (ex_now - 864000) ''aaaa''),
              (''/data/storage/gone.txt'',
                 (regular_file (ex_now - 864000) ''bb'')\<lparr>stat_raises := Some FileNotFoundError\<rparr>),
              (''/data/storage/locked.txt'',
                 (regular_file (ex_now - 864000) ''cc'')\<lparr>unlink_raises := Some PermissionError\<rparr>),
              (''/data/storage/e.txt'', regular_file (ex_now - 864000) ''eeeeee'')]\<rparr>"

definition faulty_db :: db where
  "faulty_db = \<lparr>db_up = True,
     users = [1 \<mapsto> \<lparr>plan = Some ''free'', storage_used_bytes = Some 100\<rparr>],
     jobs = [done_job ''a'' 1 ''/data/storage/a.txt'', done_job ''gone'' 1 ''/data/storage/gone.txt'',
             done_job ''locked'' 1 ''/data/storage/locked.txt'',
             done_job ''e'' 1 ''/data/storage/e.txt'']\<rparr>"

text \<open>The example's tables with a second job that names the ten-day file.\<close>

definition twice_db :: db where
  "twice_db = \<lparr>db_up = True,
     users = [1 \<mapsto> \<lparr>plan = Some ''free'', storage_used_bytes = Some 100\<rparr>],
     jobs = [done_job ''old'' 1 ''/data/storage/old.txt'',
             done_job ''copy'' 1 ''/data/storage/old.txt'']\<rparr>"

text \<open>
  Three files of ten days, with their jobs; the \<^verbatim>\<open>stat\<close> of the second raises an
  input/output error.
\<close>

definition eio_fs :: fs where
  "eio_fs = \<lparr>root = RootOk, medium = Writable,
     files = [(''/data/storage/a.txt'', regular_file (ex_now - 864000) ''aaaa''),
              (''/data/storage/bad.txt'',
                 (regular_file (ex_now - 864000) ''bb'')\<lparr>stat_raises := Some (OSError ''Input/output error'')\<rparr>),
              (''/data/storage/e.txt'', regular_file (ex_now - 864000) ''eeeeee'')]\<rparr>"

definition eio_db :: db where
  "eio_db = \<lparr>db_up = True,
     users = [1 \<mapsto> \<lparr>plan = Some ''free'', storage_used_bytes = Some 100\<rparr>],
     jobs = [done_job ''a'' 1 ''/data/storage/a.txt'', done_job ''bad'' 1 ''/data/storage/bad.txt'',
             done_job ''e'' 1 ''/data/storage/e.txt'']\<rparr>"

text \<open>
  The example's tables after the ten-day file was restored by hand: its job is already
  \<^verbatim>\<open>deleted\<close>.  Then an environment of the worker and a sequence of five operations, in
  which a run of the worker is followed by a delete request and a sweep.
\<close>

definition settled_db :: db where
  "settled_db = \<lparr>db_up = True,
     users = [1 \<mapsto> \<lparr>plan = Some ''free'', storage_used_bytes = Some 100\<rparr>],
     jobs = [done_job ''young'' 1 ''/data/storage/young.txt'',
             (done_job ''old'' 1 ''/data/storage/old.txt'')\<lparr>status := Deleted\<rparr>]\<rparr>"

definition ex_env :: task_env where
  "ex_env = \<lparr>storage_dir = ''/data/storage'', remove_local = False, uploaded = False,
     started = ex_now + 5, stamp = ''2023-11-14T22:13:25+00:00'', finished = ex_now + 6\<rparr>"

definition ex_events :: "event list" where
  "ex_events = [Sweep 7 ex_now, ProcessStart ex_env ''hi'' ''new'' (Some 1),
     ProcessEnd ex_env ''new'' (Some 1), DeleteFile True ''young'' 1, Sweep 0 (ex_now + 10)]"

text \<open>
  A delete request that arrives while the worker sleeps: the first half of the run, the
  request of the job's owner, the second half; and the rows of the job after the first
  \<open>n\<close> of these steps.
\<close>

definition race_events :: "event list" where
  "race_events = [ProcessStart ex_env ''hi'' ''new'' (Some 1), DeleteFile True ''new'' 1,
     ProcessEnd ex_env ''new'' (Some 1)]"

definition race_rows :: "nat \<Rightarrow> job list" where
  "race_rows n = rows_of ''new'' (snd (run_events (take n race_events) (ex_fs, ex_db)))"

text \<open>
  A run of the worker for a job without owner on the example's state, and two sweeps a
  hundred and two hundred days later.
\<close>

definition anon_run :: "(exn + (string \<rightharpoonup> pyval)) \<times> fs \<times> db" where
  "anon_run = process_task ''/data/storage'' False False (ex_now + 5) ''2023-11-14T22:13:25+00:00''
     (ex_now + 6) ''hi'' ''anon'' None (ex_fs, ex_db)"

definition anon_swept :: "fs \<times> db" where
  "anon_swept = run_events (sweeps_of [(7, ex_now + 8640000), (0, ex_now + 17280000)]) (snd anon_run)"

text \<open>
  A save of five bytes into the example's directory, and the worker variant's run for the
  same five bytes: its first half and the whole run.
\<close>

definition task_begun :: "exn option \<times> fs list \<times> db" where
  "task_begun = process_task_start ''/data/storage'' (ex_now + 5) ''2023-11-14T22:13:25+00:00''
     ''hello'' ''3f2b'' (Some 1) (ex_fs, ex_db)"

definition task_run :: "(exn + (string \<rightharpoonup> pyval)) \<times> fs \<times> db" where
  "task_run = process_task ''/data/storage'' False False (ex_now + 5) ''2023-11-14T22:13:25+00:00''
     (ex_now + 6) ''hello'' ''3f2b'' (Some 1) (ex_fs, ex_db)"

definition saved :: "(exn + (string \<rightharpoonup> pyval)) \<times> fs list \<times> db option" where
  "saved = save_job_payload ''/data/storage'' ''3f2b'' (ex_now + 5) ''hello'' (Some 1) None
     (ex_fs, None)"

section \<open>Properties of the Usage Ledger\<close>

lemma balance_update_user_storage:
  "balance (d\<lparr>users := update_user_storage uid e (users d)\<rparr>) v =
     (if v = uid \<and> users d uid \<noteq> None then e (storage_used_bytes (the (users d uid)))
      else balance d v)"
  by (auto simp: balance_def update_user_storage_def coalesce_def split: option.splits)

lemma balance_inc:
  "inc_user_storage uid delta d = Inr d' \<Longrightarrow>
     balance d' v = (if v = uid \<and> users d uid \<noteq> None then balance d v + delta else balance d v)"
  by (auto simp: inc_user_storage_def balance_update_user_storage split: if_splits)
     (auto simp: balance_def)

lemma balance_dec:
  "dec_user_storage uid delta d = Inr d' \<Longrightarrow>
     balance d' v =
       (if v = uid \<and> users d uid \<noteq> None then greatest (balance d v - delta) 0 else balance d v)"
  by (auto simp: dec_user_storage_def balance_update_user_storage split: if_splits)
     (auto simp: balance_def)

lemma ledger_step_nonneg:
  assumes "ledger_nonneg d" and "byte_delta x"
  shows "ledger_nonneg (ledger_step x d)"
proof (cases x)
  case (Increment uid delta)
  show ?thesis
  proof (cases "inc_user_storage uid delta d")
    case (Inl e)
    with Increment assms show ?thesis by simp
  next
    case (Inr d')
    have "0 \<le> balance d' v" for v
      using balance_inc [OF Inr, of v] assms Increment by (auto simp: ledger_nonneg_def)
    with Increment Inr show ?thesis by (simp add: ledger_nonneg_def)
  qed
next
  case (Decrement uid delta)
  show ?thesis
  proof (cases "dec_user_storage uid delta d")
    case (Inl e)
    with Decrement assms show ?thesis by simp
  next
    case (Inr d')
    have "0 \<le> balance d' v" for v
      using balance_dec [OF Inr, of v] assms by (auto simp: ledger_nonneg_def greatest_def)
    with Decrement Inr show ?thesis by (simp add: ledger_nonneg_def)
  qed
qed

lemma ledger_run_nonneg:
  "ledger_nonneg d \<Longrightarrow> \<forall>x \<in> set ops. byte_delta x \<Longrightarrow> ledger_nonneg (ledger_run ops d)"
  by (induction ops arbitrary: d) (auto intro: ledger_step_nonneg)

lemma dec_clamps:
  assumes "dec_user_storage uid delta d = Inr d'" and "users d uid \<noteq> None"
    and "balance d uid < delta"
  shows "balance d' uid = 0"
  using balance_dec [OF assms(1), of uid] assms(2,3) by (simp add: greatest_def)

text \<open>
  Claim C2.  Start from a ledger in which no owner's counter is negative and run any
  finite sequence of increments and decrements whose increments add byte counts (deltas
  that are not negative).  After every operation of the sequence, that is after every
  prefix of it, the counter of every owner is still not negative.  In particular a
  decrement by more than the current balance leaves the counter at exactly zero.
\<close>

theorem ledger_never_negative:
  assumes "ledger_nonneg d" and "\<forall>x \<in> set ops. byte_delta x"
  shows "(\<forall>n uid. 0 \<le> balance (ledger_run (take n ops) d) uid) \<and>
    (\<forall>uid delta. db_up d \<and> users d uid \<noteq> None \<and> balance d uid < delta \<longrightarrow>
      balance (ledger_step (Decrement uid delta) d) uid = 0)"
proof (intro conjI allI impI)
  fix n uid
  from assms(2) have "\<forall>x \<in> set (take n ops). byte_delta x"
    by (meson in_set_takeD)
  with assms(1) have "ledger_nonneg (ledger_run (take n ops) d)"
    by (rule ledger_run_nonneg)
  then show "0 \<le> balance (ledger_run (take n ops) d) uid"
    by (simp add: ledger_nonneg_def)
next
  fix uid delta
  assume h: "db_up d \<and> users d uid \<noteq> None \<and> balance d uid < delta"
  then obtain d' where d': "dec_user_storage uid delta d = Inr d'"
    by (auto simp: dec_user_storage_def)
  with h show "balance (ledger_step (Decrement uid delta) d) uid = 0"
    using dec_clamps [OF d'] by simp
qed

theorem ledger_never_negative_witness:
  "balance
     (ledger_run (take 2 [Increment 1 50, Decrement 1 500, Increment 1 7])
        \<lparr>db_up = True, users = [1 \<mapsto> \<lparr>plan = Some ''free'', storage_used_bytes = Some 100\<rparr>],
           jobs = []\<rparr>) 1 = 0 \<and>
   balance
     (ledger_step (Decrement 1 500)
        \<lparr>db_up = True, users = [1 \<mapsto> \<lparr>plan = Some ''free'', storage_used_bytes = Some 100\<rparr>],
           jobs = []\<rparr>) 1 = 0"
proof -
  let ?d = "\<lparr>db_up = True, users = [1 \<mapsto> \<lparr>plan = Some ''free'', storage_used_bytes = Some 100\<rparr>],
     jobs = []\<rparr>"
  let ?ops = "[Increment 1 50, Decrement 1 500, Increment 1 7]"
  have nonneg: "ledger_nonneg ?d"
    by (simp add: ledger_nonneg_def balance_def coalesce_def)
  have deltas: "\<forall>x \<in> set ?ops. byte_delta x"
    by simp
  have low: "db_up ?d \<and> users ?d 1 \<noteq> None \<and> balance ?d 1 < 500"
    by (simp add: balance_def coalesce_def)
  have run: "balance (ledger_run (take 2 ?ops) ?d) 1 = 0"
    by (simp add: inc_user_storage_def dec_user_storage_def update_user_storage_def
        balance_def coalesce_def greatest_def)
  from ledger_never_negative [OF nonneg deltas] low run show ?thesis
    by blast
qed

section \<open>Properties of the Quota Guard\<close>

lemma quota_of_cases:
  "quota_of env p =
     (if p = ''basic'' then plan_basic_bytes env
      else if p = ''pro'' then plan_pro_bytes env
      else plan_free_bytes env)"
  by (simp add: quota_of_def quotas_def)

text \<open>
  Claim C3.  Take an owner whose row holds the plan \<open>p\<close> and the counter \<open>b\<close>, both
  nullable.  The owner's quota is the ceiling of the basic plan when \<open>p\<close> is \<^verbatim>\<open>basic\<close>, the
  ceiling of the pro plan when \<open>p\<close> is \<^verbatim>\<open>pro\<close>, and the ceiling of the free plan in every
  other case: the plan \<^verbatim>\<open>free\<close>, no plan, the empty string or a name that is not in the
  table.  The current usage is \<open>b\<close>, and 0 when the counter is null.  The guard refuses an
  estimate exactly when usage plus estimate is strictly greater than the quota, and
  \<^verbatim>\<open>enqueue\<close> answers 403 exactly when this holds for the estimate of its payload, the
  byte length plus 1024; otherwise it admits the request and returns the job id.
\<close>

theorem quota_guard_denies_iff:
  "(exceeds_quota env \<lparr>plan = p, storage_used_bytes = b\<rparr> est \<longleftrightarrow>
      (if p = Some ''basic'' then plan_basic_bytes env
       else if p = Some ''pro'' then plan_pro_bytes env
       else plan_free_bytes env) < (case b of None \<Rightarrow> 0 | Some n \<Rightarrow> n) + est) \<and>
   enqueue env \<lparr>plan = p, storage_used_bytes = b\<rparr> text jid =
     (if (if p = Some ''basic'' then plan_basic_bytes env
          else if p = Some ''pro'' then plan_pro_bytes env
          else plan_free_bytes env)
         < (case b of None \<Rightarrow> 0 | Some n \<Rightarrow> n) + (int (length text) + 1024)
      then Inl Http403 else Inr jid)"
  by (auto simp: exceeds_quota_def quota_of_cases enqueue_def estimated_size_def or_str_def
      or_int_def split: option.splits)

text \<open>
  The example of the specification: with a quota of 1000 and a usage of 900, an estimate
  of 150 is refused and one of 50 is admitted; once the 50 bytes are committed to the
  ledger, an estimate of 60 is refused.  With the same ceilings an owner on the basic plan
  (5000) is admitted with 150 bytes at a usage of 900 and refused with 4101; one on the pro
  plan (9000) is admitted with 8100 and refused with 8101; a plan that is not in the table
  and a missing plan get the ceiling of the free plan.  With the ceilings of the source,
  \<^verbatim>\<open>enqueue\<close> refuses five bytes of an owner on the free plan who is 1000 bytes below the
  ceiling and admits them 1029 bytes below it.
\<close>

theorem quota_guard_denies_iff_witness:
  "exceeds_quota \<lparr>plan_free_bytes = 1000, plan_basic_bytes = 5000, plan_pro_bytes = 9000\<rparr>
     \<lparr>plan = Some ''free'', storage_used_bytes = Some 900\<rparr> 150 \<and>
   \<not> exceeds_quota \<lparr>plan_free_bytes = 1000, plan_basic_bytes = 5000, plan_pro_bytes = 9000\<rparr>
     \<lparr>plan = Some ''free'', storage_used_bytes = Some 900\<rparr> 50 \<and>
   (case inc_user_storage 1 50
           \<lparr>db_up = True, users = [1 \<mapsto> \<lparr>plan = Some ''free'', storage_used_bytes = Some 900\<rparr>],
              jobs = []\<rparr> of
      Inl e \<Rightarrow> False
    | Inr d \<Rightarrow>
        users d 1 = Some \<lparr>plan = Some ''free'', storage_used_bytes = Some 950\<rparr>) \<and>
   exceeds_quota \<lparr>plan_free_bytes = 1000, plan_basic_bytes = 5000, plan_pro_bytes = 9000\<rparr>
     \<lparr>plan = Some ''free'', storage_used_bytes = Some 950\<rparr> 60 \<and>
   \<not> exceeds_quota \<lparr>plan_free_bytes = 1000, plan_basic_bytes = 5000, plan_pro_bytes = 9000\<rparr>
     \<lparr>plan = Some ''basic'', storage_used_bytes = Some 900\<rparr> 150 \<and>
   exceeds_quota \<lparr>plan_free_bytes = 1000, plan_basic_bytes = 5000, plan_pro_bytes = 9000\<rparr>
     \<lparr>plan = Some ''basic'', storage_used_bytes = Some 900\<rparr> 4101 \<and>
   \<not> exceeds_quota \<lparr>plan_free_bytes = 1000, plan_basic_bytes = 5000, plan_pro_bytes = 9000\<rparr>
     \<lparr>plan = Some ''pro'', storage_used_bytes = Some 900\<rparr> 8100 \<and>
   exceeds_quota \<lparr>plan_free_bytes = 1000, plan_basic_bytes = 5000, plan_pro_bytes = 9000\<rparr>
     \<lparr>plan = Some ''pro'', storage_used_bytes = Some 900\<rparr> 8101 \<and>
   exceeds_quota \<lparr>plan_free_bytes = 1000, plan_basic_bytes = 5000, plan_pro_bytes = 9000\<rparr>
     \<lparr>plan = Some ''gold'', storage_used_bytes = Some 900\<rparr> 150 \<and>
   exceeds_quota \<lparr>plan_free_bytes = 1000, plan_basic_bytes = 5000, plan_pro_bytes = 9000\<rparr>
     \<lparr>plan = None, storage_used_bytes = None\<rparr> 1001 \<and>
   \<not> exceeds_quota \<lparr>plan_free_bytes = 1000, plan_basic_bytes = 5000, plan_pro_bytes = 9000\<rparr>
     \<lparr>plan = None, storage_used_bytes = None\<rparr> 1000 \<and>
   enqueue default_quotas \<lparr>plan = Some ''free'', storage_used_bytes = Some 524287000\<rparr>
     ''hello'' ''3f2b'' = Inl Http403 \<and>
   enqueue default_quotas \<lparr>plan = Some ''free'', storage_used_bytes = Some 524286971\<rparr>
     ''hello'' ''3f2b'' = Inr ''3f2b''"
proof -
  let ?env = "\<lparr>plan_free_bytes = 1000, plan_basic_bytes = 5000, plan_pro_bytes = 9000\<rparr>"
  have guard: "exceeds_quota ?env \<lparr>plan = Some ''free'', storage_used_bytes = Some 900\<rparr> 150"
    "\<not> exceeds_quota ?env \<lparr>plan = Some ''free'', storage_used_bytes = Some 900\<rparr> 50"
    "exceeds_quota ?env \<lparr>plan = Some ''free'', storage_used_bytes = Some 950\<rparr> 60"
    "\<not> exceeds_quota ?env \<lparr>plan = Some ''basic'', storage_used_bytes = Some 900\<rparr> 150"
    "exceeds_quota ?env \<lparr>plan = Some ''basic'', storage_used_bytes = Some 900\<rparr> 4101"
    "\<not> exceeds_quota ?env \<lparr>plan = Some ''pro'', storage_used_bytes = Some 900\<rparr> 8100"
    "exceeds_quota ?env \<lparr>plan = Some ''pro'', storage_used_bytes = Some 900\<rparr> 8101"
    "exceeds_quota ?env \<lparr>plan = Some ''gold'', storage_used_bytes = Some 900\<rparr> 150"
    "exceeds_quota ?env \<lparr>plan = None, storage_used_bytes = None\<rparr> 1001"
    "\<not> exceeds_quota ?env \<lparr>plan = None, storage_used_bytes = None\<rparr> 1000"
    using quota_guard_denies_iff [of ?env "Some ''free''" "Some 900" 150]
      quota_guard_denies_iff [of ?env "Some ''free''" "Some 900" 50]
      quota_guard_denies_iff [of ?env "Some ''free''" "Some 950" 60]
      quota_guard_denies_iff [of ?env "Some ''basic''" "Some 900" 150]
      quota_guard_denies_iff [of ?env "Some ''basic''" "Some 900" 4101]
      quota_guard_denies_iff [of ?env "Some ''pro''" "Some 900" 8100]
      quota_guard_denies_iff [of ?env "Some ''pro''" "Some 900" 8101]
      quota_guard_denies_iff [of ?env "Some ''gold''" "Some 900" 150]
      quota_guard_denies_iff [of ?env None None 1001]
      quota_guard_denies_iff [of ?env None None 1000]
    by simp_all
  have enq: "enqueue default_quotas \<lparr>plan = Some ''free'', storage_used_bytes = Some 524287000\<rparr>
       ''hello'' ''3f2b'' = Inl Http403"
    "enqueue default_quotas \<lparr>plan = Some ''free'', storage_used_bytes = Some 524286971\<rparr>
       ''hello'' ''3f2b'' = Inr ''3f2b''"
    using quota_guard_denies_iff [of default_quotas "Some ''free''" "Some 524287000" 0 "''hello''" "''3f2b''"]
      quota_guard_denies_iff [of default_quotas "Some ''free''" "Some 524286971" 0 "''hello''" "''3f2b''"]
    by (simp_all add: default_quotas_def)
  have commit: "(case inc_user_storage 1 50
           \<lparr>db_up = True, users = [1 \<mapsto> \<lparr>plan = Some ''free'', storage_used_bytes = Some 900\<rparr>],
              jobs = []\<rparr> of
      Inl e \<Rightarrow> False
    | Inr d \<Rightarrow> users d 1 = Some \<lparr>plan = Some ''free'', storage_used_bytes = Some 950\<rparr>)"
    by (simp add: inc_user_storage_def update_user_storage_def coalesce_def)
  from guard enq commit show ?thesis
    by (intro conjI)
qed

section \<open>Properties of the worker variant's sweep\<close>

lemma cleanup_job_eq:
  assumes "db_up d"
  shows "cleanup_job (now - days * 86400) j (f, d, n) =
     (if job_swept now days f j
      then (rm (filename j) f, settle j (file_size f (filename j)) d, n + 1)
      else (f, d, n))"
  using assms
  by (auto simp: cleanup_job_def job_swept_def sweepable_def removable_def os_path_isfile_def
      os_path_getmtime_def os_path_getsize_def os_stat_def os_remove_def age_def
      retention_threshold_def file_size_def settle_def rm_def dec_user_storage_def commit_job_status_def
      split: option.splits sum.splits kind.splits)

lemma db_up_settle [simp]: "db_up (settle j sz d) = db_up d"
  by (simp add: settle_def)

lemma lookup_rm: "lookup (rm (Some fn) f) p = (if p = fn then None else lookup f p)"
  by (simp add: lookup_def rm_def delete_conv')

lemma in_job_files: "fn \<in> set (job_files js) \<longleftrightarrow> (\<exists>j \<in> set js. filename j = Some fn)"
  by (induction js) (auto split: option.splits)

lemma job_swept_rm:
  "filename j' \<noteq> Some fn \<Longrightarrow> job_swept now days (rm (Some fn) f) j' = job_swept now days f j'"
  by (auto simp: job_swept_def sweepable_def lookup_rm split: option.splits)

lemma file_size_rm:
  "filename j' \<noteq> Some fn \<Longrightarrow> file_size (rm (Some fn) f) (filename j') = file_size f (filename j')"
  by (auto simp: file_size_def lookup_rm split: option.splits)

lemma db_up_settle_all [simp]: "db_up (settle_all f0 js d) = db_up d"
  by (induction js arbitrary: d) auto

lemma swept_jobs_rm:
  assumes "\<forall>j' \<in> set js. filename j' \<noteq> Some fn"
  shows "swept_jobs now days (rm (Some fn) f) js = swept_jobs now days f js"
  unfolding swept_jobs_def using assms by (intro filter_cong) (auto simp: job_swept_rm)

lemma settle_all_rm:
  assumes "\<forall>j' \<in> set js. filename j' \<noteq> Some fn"
  shows "settle_all (rm (Some fn) f) js d = settle_all f js d"
  using assms by (induction js arbitrary: d) (auto simp: file_size_rm)

lemma cleanup_jobs_closed:
  assumes "db_up d" and "distinct (job_files js)"
  shows "cleanup_jobs (now - days * 86400) js (f, d, n) =
    (rm_all (swept_jobs now days f js) f, settle_all f (swept_jobs now days f js) d,
     n + length (swept_jobs now days f js))"
  using assms
proof (induction js arbitrary: f d n)
  case Nil
  then show ?case by (simp add: swept_jobs_def)
next
  case (Cons j js)
  show ?case
  proof (cases "job_swept now days f j")
    case False
    have "distinct (job_files js)"
      using Cons.prems(2) by (auto split: option.splits)
    with Cons.IH [OF Cons.prems(1) this] False Cons.prems(1) show ?thesis
      by (simp add: cleanup_job_eq swept_jobs_def)
  next
    case True
    then obtain fn where fn: "filename j = Some fn"
      by (auto simp: job_swept_def split: option.splits)
    with Cons.prems(2) have dis: "distinct (job_files js)" and nin: "fn \<notin> set (job_files js)"
      by auto
    from nin have other: "\<forall>j' \<in> set js. filename j' \<noteq> Some fn"
      by (simp add: in_job_files)
    have up: "db_up (settle j (file_size f (filename j)) d)"
      using Cons.prems(1) by simp
    have sw: "swept_jobs now days f (j # js) = j # swept_jobs now days f js"
      using True by (simp add: swept_jobs_def)
    have "settle_all f (filter (job_swept now days f) js) d' =
          settle_all (rm (Some fn) f) (filter (job_swept now days f) js) d'" for d'
      using other by (intro settle_all_rm [symmetric]) auto
    then show ?thesis
      using True Cons.prems(1) Cons.IH [OF up dis, of "rm (Some fn) f" "n + 1"] fn
        swept_jobs_rm [OF other, of now days f]
      by (simp add: cleanup_job_eq sw) (simp add: swept_jobs_def)
  qed
qed

lemma lookup_rm_all:
  "lookup (rm_all js f) p = (if p \<in> set (job_files js) then None else lookup f p)"
proof (induction js arbitrary: f)
  case Nil
  then show ?case by simp
next
  case (Cons j js)
  show ?case
  proof (cases "filename j")
    case None
    with Cons show ?thesis by (simp add: rm_def)
  next
    case (Some fn)
    with Cons show ?thesis by (simp add: lookup_rm)
  qed
qed

lemma jobs_settle_all:
  "jobs (settle_all f0 js d) =
     map (\<lambda>r. if job_id r \<in> job_id ` set js then r\<lparr>status := Deleted\<rparr> else r) (jobs d)"
proof (induction js arbitrary: d)
  case Nil
  then show ?case by (simp add: map_idI)
next
  case (Cons j js)
  show ?case
    by (simp add: Cons settle_def) 
qed

lemma greatest_twice:
  "0 \<le> b \<Longrightarrow> greatest (greatest (x - a) 0 - b) 0 = greatest (x - (a + b)) 0"
  by (simp add: greatest_def)

lemma balance_settle:
  "balance (settle j sz d) u =
     (if owner_id j = Some u \<and> u \<noteq> 0 \<and> users d u \<noteq> None then greatest (balance d u - sz) 0
      else balance d u)"
proof -
  have "balance (settle j sz d) u = balance (d\<lparr>users := users (settle j sz d)\<rparr>) u"
    by (simp add: balance_def)
  also have "\<dots> = (if owner_id j = Some u \<and> u \<noteq> 0 \<and> users d u \<noteq> None
      then greatest (balance d u - sz) 0 else balance d u)"
    by (auto simp: settle_def balance_update_user_storage truthy_int_def or_int_def
        split: option.splits)
       (auto simp: balance_def)
  finally show ?thesis .
qed

lemma file_size_nonneg: "0 \<le> file_size f p"
  by (simp add: file_size_def split: option.splits)

lemma balance_settle_all:
  "balance (settle_all f0 js d) u =
     (if filter (\<lambda>j. owner_id j = Some u \<and> u \<noteq> 0) js = [] then balance d u
      else greatest (balance d u -
        sum_list (map (\<lambda>j. file_size f0 (filename j))
          (filter (\<lambda>j. owner_id j = Some u \<and> u \<noteq> 0) js))) 0)"
proof (induction js arbitrary: d)
  case Nil
  then show ?case by simp
next
  case (Cons j js)
  let ?d1 = "settle j (file_size f0 (filename j)) d"
  let ?own = "filter (\<lambda>j. owner_id j = Some u \<and> u \<noteq> 0) js"
  let ?rest = "sum_list (map (\<lambda>j. file_size f0 (filename j)) ?own)"
  have rest: "0 \<le> ?rest"
    by (intro sum_list_nonneg) (auto simp: file_size_nonneg)
  have empty: "?own = [] \<Longrightarrow> ?rest = 0"
    by simp
  have b1: "balance ?d1 u =
     (if owner_id j = Some u \<and> u \<noteq> 0 \<and> users d u \<noteq> None
      then greatest (balance d u - file_size f0 (filename j)) 0 else balance d u)"
    by (rule balance_settle)
  have norow: "users d u = None \<Longrightarrow> balance d u = 0"
    by (simp add: balance_def)
  show ?case
  proof (cases "owner_id j = Some u \<and> u \<noteq> 0")
    case False
    with Cons.IH [of ?d1] b1 show ?thesis by auto
  next
    case True
    show ?thesis
    proof (cases "users d u = None")
      case True
      with \<open>owner_id j = Some u \<and> u \<noteq> 0\<close> Cons.IH [of ?d1] b1 norow rest
        file_size_nonneg [of f0 "filename j"]
      show ?thesis by (auto simp: greatest_def)
    next
      case False
      with True b1 have b: "balance ?d1 u = greatest (balance d u - file_size f0 (filename j)) 0"
        by simp
      then have "0 \<le> balance ?d1 u"
        by (simp add: greatest_def)
      with Cons.IH [of ?d1] empty rest
      have "balance (settle_all f0 js ?d1) u = greatest (balance ?d1 u - ?rest) 0"
        by (auto simp: greatest_def)
      with b True rest show ?thesis
        by (simp add: greatest_twice add.commute)
    qed
  qed
qed

lemma swept_ids:
  assumes "distinct (map job_id (jobs d))" and "r \<in> set (jobs d)"
  shows "job_id r \<in> job_id ` set (swept_jobs now days f (done_jobs d)) \<longleftrightarrow>
     status r = Done \<and> job_swept now days f r"
proof
  assume "job_id r \<in> job_id ` set (swept_jobs now days f (done_jobs d))"
  then obtain j where j: "j \<in> set (jobs d)" "status j = Done" "job_swept now days f j"
      "job_id j = job_id r"
    by (auto simp: swept_jobs_def done_jobs_def)
  from assms(1) have "inj_on job_id (set (jobs d))"
    by (simp add: distinct_map)
  with j(1,4) assms(2) have "j = r"
    by (auto dest: inj_onD)
  with j show "status r = Done \<and> job_swept now days f r" by simp
next
  assume "status r = Done \<and> job_swept now days f r"
  with assms(2) show "job_id r \<in> job_id ` set (swept_jobs now days f (done_jobs d))"
    by (auto simp: swept_jobs_def done_jobs_def)
qed

lemma job_files_swept:
  "p \<in> set (job_files (swept_jobs now days f js)) \<longleftrightarrow>
     p \<in> set (job_files js) \<and> p \<noteq> [] \<and> sweepable now days f p"
  by (auto simp: in_job_files swept_jobs_def job_swept_def)

lemma owned_swept_filter:
  "filter (\<lambda>j. owner_id j = Some u \<and> u \<noteq> 0) (swept_jobs now days f js) =
   owned_swept now days f js u"
  by (simp add: owned_swept_def swept_jobs_def conj_commute conj_left_commute)

section \<open>Properties of the current variant's sweep\<close>

lemma cleanup_entry_eq:
  assumes "\<forall>n. lookup f p = Some n \<longrightarrow> \<not> raises_other (now - days * 86400) n"
  shows "cleanup_entry (now - days * 86400) p (f, k) =
     Inr (if sweepable now days f p then (rm_path p f, k + 1) else (f, k))"
proof (cases "lookup f p")
  case None
  then show ?thesis
    by (simp add: cleanup_entry_def path_is_file_def sweepable_def)
next
  case (Some n)
  with assms have "\<not> raises_other (now - days * 86400) n"
    by simp
  with Some show ?thesis
    by (auto simp: cleanup_entry_def path_is_file_def os_stat_def os_remove_def skip_or_raise_def
        datetime_fromtimestamp_def sweepable_def removable_def raises_other_def handled_def
        rm_path_def age_def retention_threshold_def
        split: option.splits kind.splits)
qed

lemma lookup_rm_path: "lookup (rm_path q f) p = (if p = q then None else lookup f p)"
  by (simp add: lookup_def rm_path_def delete_conv')

lemma sweepable_rm_path:
  "p \<noteq> q \<Longrightarrow> sweepable now days (rm_path q f) p = sweepable now days f p"
  by (simp add: sweepable_def lookup_rm_path)

lemma quiet_lookup:
  "quiet c f \<Longrightarrow> lookup f p = Some n \<Longrightarrow> \<not> raises_other c n"
  by (auto simp: quiet_def lookup_def dest: map_of_SomeD)

lemma quiet_rm_path: "quiet c f \<Longrightarrow> quiet c (rm_path q f)"
  by (auto simp: quiet_def rm_path_def AList.delete_eq)

lemma cleanup_entries_closed:
  assumes "quiet (now - days * 86400) f" and "distinct ps"
  shows "cleanup_entries (now - days * 86400) ps (f, k) =
    (None, fold rm_path (filter (sweepable now days f) ps) f,
     k + length (filter (sweepable now days f) ps))"
  using assms
proof (induction ps arbitrary: f k)
  case Nil
  then show ?case by simp
next
  case (Cons p ps)
  have step: "cleanup_entry (now - days * 86400) p (f, k) =
     Inr (if sweepable now days f p then (rm_path p f, k + 1) else (f, k))"
    using Cons.prems(1) by (intro cleanup_entry_eq) (auto dest: quiet_lookup)
  from Cons.prems(2) have dis: "distinct ps" and nin: "p \<notin> set ps"
    by auto
  show ?case
  proof (cases "sweepable now days f p")
    case False
    with step Cons.IH [OF Cons.prems(1) dis, of k] show ?thesis by simp
  next
    case True
    have same: "filter (sweepable now days (rm_path p f)) ps = filter (sweepable now days f) ps"
      using nin by (intro filter_cong refl) (metis sweepable_rm_path)
    from True step Cons.IH [OF quiet_rm_path [OF Cons.prems(1)] dis, of p "k + 1"]
    show ?thesis by (simp add: same)
  qed
qed

lemma lookup_fold_rm_path:
  "lookup (fold rm_path qs f) p = (if p \<in> set qs then None else lookup f p)"
  by (induction qs arbitrary: f) (auto simp: lookup_rm_path)

lemma length_delete:
  "distinct (map fst xs) \<Longrightarrow> k \<in> fst ` set xs \<Longrightarrow>
     Suc (length (AList.delete k xs)) = length xs"
proof (induction xs)
  case Nil
  then show ?case by simp
next
  case (Cons x xs)
  show ?case
  proof (cases "fst x = k")
    case True
    with Cons.prems(1) have "k \<notin> fst ` set xs" by auto
    then have "AList.delete k xs = xs"
      by (simp add: AList.delete_eq filter_id_conv) force
    with True show ?thesis by (cases x) (simp add: AList.delete_eq)
  next
    case False
    with Cons show ?thesis by (auto simp: AList.delete_eq)
  qed
qed

lemma keys_rm_path: "fst ` set (files (rm_path q f)) = fst ` set (files f) - {q}"
  by (auto simp: rm_path_def AList.delete_eq)

lemma distinct_rm_path:
  "distinct (map fst (files f)) \<Longrightarrow> distinct (map fst (files (rm_path q f)))"
  by (simp add: rm_path_def distinct_delete)

lemma length_fold_rm_path:
  assumes "distinct (map fst (files f))" and "distinct qs" and "set qs \<subseteq> fst ` set (files f)"
  shows "length (files (fold rm_path qs f)) + length qs = length (files f)"
  using assms
proof (induction qs arbitrary: f)
  case Nil
  then show ?case by simp
next
  case (Cons q qs)
  have "set qs \<subseteq> fst ` set (files (rm_path q f))"
    using Cons.prems(2,3) by (auto simp: keys_rm_path)
  with Cons.IH [OF distinct_rm_path [OF Cons.prems(1)], of q] Cons.prems(2)
  have "length (files (fold rm_path qs (rm_path q f))) + length qs = length (files (rm_path q f))"
    by simp
  moreover have "Suc (length (files (rm_path q f))) = length (files f)"
    using Cons.prems(1,3) by (simp add: rm_path_def length_delete)
  ultimately show ?case by simp
qed

lemma sweepable_in_keys: "sweepable now days f p \<Longrightarrow> p \<in> fst ` set (files f)"
  by (auto simp: sweepable_def lookup_def split: option.splits dest!: map_of_SomeD intro: rev_image_eqI)

lemma current_sweep_closed:
  assumes "root f = RootOk" and "cutoff_representable now days"
    and "quiet (now - days * 86400) f"
    and "distinct (map fst (files f))"
  shows "cleanup_local_storage sp days now (f, dbo) =
     Inr ([''deleted'' \<mapsto> PyInt (int (length (filter (sweepable now days f) (map fst (files f)))))],
          fold rm_path (filter (sweepable now days f) (map fst (files f))) f,
          reflect_deletions sp (fold rm_path (filter (sweepable now days f) (map fst (files f))) f) dbo)"
  using assms cleanup_entries_closed [OF assms(3,4), of 0]
  by (simp add: cleanup_local_storage_def timedelta_days_def datetime_sub_def iterdir_def
      cutoff_representable_def)


section \<open>The closed form of the worker variant's sweep\<close>

lemma rm_all_fold: "rm_all js f = fold rm_path (job_files js) f"
  by (induction js arbitrary: f) (auto simp: rm_def rm_path_def split: option.splits)

lemma job_files_filter_sublist: "distinct (job_files js) \<Longrightarrow> distinct (job_files (filter P js))"
proof (induction js)
  case Nil
  then show ?case by simp
next
  case (Cons j js)
  have "set (job_files (filter P js)) \<subseteq> set (job_files js)"
    by (auto simp: in_job_files)
  with Cons show ?case by (auto split: option.splits)
qed

lemma worker_sweep_closed:
  assumes "\<not> float_overflows (days * 86400)" and "os_path_isdir_root f" and "db_up d"
    and "distinct (job_files (done_jobs d))"
  shows "cleanup_local_storage_bak days now (f, d) =
      Inr ([''deleted'' \<mapsto> PyInt (int (length (swept_jobs now days f (done_jobs d))))],
           rm_all (swept_jobs now days f (done_jobs d)) f,
           settle_all f (swept_jobs now days f (done_jobs d)) d)"
  using assms(1,2,3) cleanup_jobs_closed [OF assms(3,4), of now days f 0]
  by (simp add: cleanup_local_storage_bak_def cutoff_ts_def select_done_jobs_def done_jobs_def)

lemma worker_sweep_result:
  "\<exists>res f' d'. cleanup_local_storage_bak days now (f, d) = Inr (res, f', d') \<and>
     (if float_overflows (days * 86400)
      then res = [''error'' \<mapsto> PyStr (str_exn OverflowError)] \<and> f' = f \<and> d' = d
      else if \<not> os_path_isdir_root f
      then res = [''deleted'' \<mapsto> PyInt 0, ''reason'' \<mapsto> PyStr ''no_dir''] \<and> f' = f \<and> d' = d
      else if \<not> db_up d
      then res = [''error'' \<mapsto> PyStr (str_exn OperationalError)] \<and> f' = f \<and> d' = d
      else \<exists>n. res = [''deleted'' \<mapsto> PyInt (int n)])"
proof (cases "\<not> float_overflows (days * 86400) \<and> os_path_isdir_root f \<and> db_up d")
  case False
  then show ?thesis
    by (auto simp: cleanup_local_storage_bak_def cutoff_ts_def select_done_jobs_def)
next
  case True
  obtain f' d' n where
    "cleanup_jobs (now - days * 86400) (filter (\<lambda>j. status j = Done) (jobs d)) (f, d, 0) = (f', d', n)"
    by (metis prod_cases3)
  with True have "cleanup_local_storage_bak days now (f, d) =
      Inr ([''deleted'' \<mapsto> PyInt (int n)], f', d')"
    by (simp add: cleanup_local_storage_bak_def cutoff_ts_def select_done_jobs_def)
  with True show ?thesis by auto
qed

lemma worker_sweep_count:
  assumes "distinct (job_files js)" and "distinct (map fst (files f))"
  shows "length (files (rm_all (swept_jobs now days f js) f)) + length (swept_jobs now days f js)
     = length (files f)"
proof -
  let ?sw = "swept_jobs now days f js"
  have len: "length (job_files ?sw) = length ?sw"
    by (induction js) (auto simp: swept_jobs_def job_swept_def split: option.splits)
  have dis: "distinct (job_files ?sw)"
    unfolding swept_jobs_def using assms(1) by (rule job_files_filter_sublist)
  have sub: "set (job_files ?sw) \<subseteq> fst ` set (files f)"
    by (auto simp: job_files_swept dest: sweepable_in_keys)
  from length_fold_rm_path [OF assms(2) dis sub] len show ?thesis
    by (simp add: rm_all_fold)
qed

section \<open>What a sweep deletes\<close>

lemma root_fold_rm_path: "root (fold rm_path qs g) = root g"
  by (induction qs arbitrary: g) (simp_all add: rm_path_def)

lemma current_sweep_completed:
  assumes "loop_runs now days g" and "distinct (map fst (files g))"
  shows "\<exists>g'. cleanup_local_storage sp days now (g, dbo) =
       Inr ([''deleted'' \<mapsto> PyInt (int (length (filter (sweepable now days g) (map fst (files g)))))],
            g', reflect_deletions sp g' dbo) \<and>
     root g' = RootOk \<and>
     (\<forall>p. lookup g' p = (if sweepable now days g p then None else lookup g p))"
proof -
  let ?qs = "filter (sweepable now days g) (map fst (files g))"
  from assms(1) have rep: "cutoff_representable now days" and ok: "root g = RootOk"
    and q: "quiet (now - days * 86400) g"
    by (simp_all add: loop_runs_def)
  have run: "cleanup_local_storage sp days now (g, dbo) =
      Inr ([''deleted'' \<mapsto> PyInt (int (length ?qs))], fold rm_path ?qs g,
           reflect_deletions sp (fold rm_path ?qs g) dbo)"
    using ok rep q assms(2) by (rule current_sweep_closed)
  have root: "root (fold rm_path ?qs g) = RootOk"
    using ok by (simp add: root_fold_rm_path)
  have "lookup (fold rm_path ?qs g) p = (if sweepable now days g p then None else lookup g p)" for p
    by (auto simp: lookup_fold_rm_path dest: sweepable_in_keys)
  with run root show ?thesis by blast
qed

lemma reflect_deletions_rows:
  assumes "root g' = RootOk" and "db_up d0"
  shows "\<exists>d1. reflect_deletions sp g' (Some d0) = Some d1 \<and>
     jobs d1 = map (\<lambda>r. case filename r of
                          None \<Rightarrow> r
                        | Some fn \<Rightarrow>
                            if fn \<noteq> [] \<and> lookup g' (path_join sp fn) = None
                            then r\<lparr>status := Deleted\<rparr> else r) (jobs d0)"
  using assms
  by (auto simp: reflect_deletions_def path_exists_def split: option.splits)

text \<open>
  Claim C1, as amended.  Worker variant, the job ids and the file names of the jobs with
  status \<^verbatim>\<open>done\<close> being distinct: a sweep that runs its loop returns the number of files it
  removed and
  \<^item> removes exactly the paths that a job with status \<^verbatim>\<open>done\<close> names and that are
    sweepable, that is regular files that can be examined and unlinked and whose age is
    strictly greater than the retention threshold; every other path keeps its entry;
  \<^item> sets the status of exactly the jobs whose file it removed to \<^verbatim>\<open>deleted\<close>;
  \<^item> leaves every owner of a removed file with the balance before the sweep minus the
    sizes, read before the removal, of the removed files of that owner's jobs, floored at
    zero, and every other owner with the balance before the sweep.

  A sweep of the worker variant that does not run its loop changes nothing.

  Current variant, the directory listing naming each entry once: a sweep that runs its
  loop to the end returns the number of files it removed, removes exactly the sweepable
  entries of the directory and, when its database answers, sets to \<^verbatim>\<open>deleted\<close> the status
  of every job whose file name, joined to the storage path, names a path that is not there
  after the sweep, so of the job of every file it removed.
\<close>

theorem sweep_deletes_exactly_expired:
  assumes "distinct (map job_id (jobs d))" and "distinct (job_files (done_jobs d))"
    and "distinct (map fst (files g))"
  shows "(\<exists>res f' d'.
      cleanup_local_storage_bak days now (f, d) = Inr (res, f', d') \<and>
      (if loop_runs_bak days f d
       then res = [''deleted'' \<mapsto> PyInt (int (length (swept_jobs now days f (done_jobs d))))] \<and>
         (\<forall>p. lookup f' p =
            (if p \<in> set (job_files (done_jobs d)) \<and> p \<noteq> [] \<and> sweepable now days f p then None
             else lookup f p)) \<and>
         jobs d' =
           map (\<lambda>j. if status j = Done \<and> job_swept now days f j then j\<lparr>status := Deleted\<rparr> else j)
             (jobs d) \<and>
         (\<forall>u. balance d' u =
            (if owned_swept now days f (done_jobs d) u = [] then balance d u
             else greatest (balance d u - reclaimed now days f (done_jobs d) u) 0))
       else f' = f \<and> d' = d)) \<and>
    (loop_runs now days g \<longrightarrow>
      (\<exists>g' dbo'.
        cleanup_local_storage sp days now (g, dbo) =
          Inr ([''deleted'' \<mapsto> PyInt (int (length (filter (sweepable now days g) (map fst (files g)))))],
               g', dbo') \<and>
        (\<forall>p. lookup g' p = (if sweepable now days g p then None else lookup g p)) \<and>
        (\<forall>d0. dbo = Some d0 \<and> db_up d0 \<longrightarrow>
           (\<exists>d1. dbo' = Some d1 \<and>
              jobs d1 = map (\<lambda>r. case filename r of
                                   None \<Rightarrow> r
                                 | Some fn \<Rightarrow>
                                     if fn \<noteq> [] \<and> lookup g' (path_join sp fn) = None
                                     then r\<lparr>status := Deleted\<rparr> else r) (jobs d0)))))"
proof (rule conjI)
  let ?sw = "swept_jobs now days f (done_jobs d)"
  show "\<exists>res f' d'.
      cleanup_local_storage_bak days now (f, d) = Inr (res, f', d') \<and>
      (if loop_runs_bak days f d
       then res = [''deleted'' \<mapsto> PyInt (int (length ?sw))] \<and>
         (\<forall>p. lookup f' p =
            (if p \<in> set (job_files (done_jobs d)) \<and> p \<noteq> [] \<and> sweepable now days f p then None
             else lookup f p)) \<and>
         jobs d' =
           map (\<lambda>j. if status j = Done \<and> job_swept now days f j then j\<lparr>status := Deleted\<rparr> else j)
             (jobs d) \<and>
         (\<forall>u. balance d' u =
            (if owned_swept now days f (done_jobs d) u = [] then balance d u
             else greatest (balance d u - reclaimed now days f (done_jobs d) u) 0))
       else f' = f \<and> d' = d)"
  proof (cases "loop_runs_bak days f d")
    case False
    from worker_sweep_result [of days now f d] obtain res f' d' where
      "cleanup_local_storage_bak days now (f, d) = Inr (res, f', d')" "f' = f \<and> d' = d"
      using False by (auto simp: loop_runs_bak_def split: if_splits)
    with False show ?thesis by auto
  next
    case True
    then have pre: "\<not> float_overflows (days * 86400)" "os_path_isdir_root f" "db_up d"
      by (simp_all add: loop_runs_bak_def)
    have run: "cleanup_local_storage_bak days now (f, d) =
        Inr ([''deleted'' \<mapsto> PyInt (int (length ?sw))], rm_all ?sw f, settle_all f ?sw d)"
      using pre assms(2) by (rule worker_sweep_closed)
    have files: "\<forall>p. lookup (rm_all ?sw f) p =
         (if p \<in> set (job_files (done_jobs d)) \<and> p \<noteq> [] \<and> sweepable now days f p then None
          else lookup f p)"
      by (simp add: lookup_rm_all job_files_swept)
    have rows: "jobs (settle_all f ?sw d) =
        map (\<lambda>j. if status j = Done \<and> job_swept now days f j then j\<lparr>status := Deleted\<rparr> else j) (jobs d)"
      unfolding jobs_settle_all
      by (rule map_cong) (simp_all add: swept_ids [OF assms(1)])
    have ledger: "\<forall>u. balance (settle_all f ?sw d) u =
        (if owned_swept now days f (done_jobs d) u = [] then balance d u
         else greatest (balance d u - reclaimed now days f (done_jobs d) u) 0)"
      by (simp add: balance_settle_all [of f ?sw d] owned_swept_filter reclaimed_def)
    from True run files rows ledger show ?thesis
      by (intro exI [of _ "[''deleted'' \<mapsto> PyInt (int (length ?sw))]"] exI [of _ "rm_all ?sw f"]
          exI [of _ "settle_all f ?sw d"]) simp
  qed
next
  show "loop_runs now days g \<longrightarrow>
      (\<exists>g' dbo'.
        cleanup_local_storage sp days now (g, dbo) =
          Inr ([''deleted'' \<mapsto> PyInt (int (length (filter (sweepable now days g) (map fst (files g)))))],
               g', dbo') \<and>
        (\<forall>p. lookup g' p = (if sweepable now days g p then None else lookup g p)) \<and>
        (\<forall>d0. dbo = Some d0 \<and> db_up d0 \<longrightarrow>
           (\<exists>d1. dbo' = Some d1 \<and>
              jobs d1 = map (\<lambda>r. case filename r of
                                   None \<Rightarrow> r
                                 | Some fn \<Rightarrow>
                                     if fn \<noteq> [] \<and> lookup g' (path_join sp fn) = None
                                     then r\<lparr>status := Deleted\<rparr> else r) (jobs d0))))"
  proof
    assume lr: "loop_runs now days g"
    from current_sweep_completed [OF lr assms(3), of sp dbo] obtain g' where
      run: "cleanup_local_storage sp days now (g, dbo) =
         Inr ([''deleted'' \<mapsto> PyInt (int (length (filter (sweepable now days g) (map fst (files g)))))],
              g', reflect_deletions sp g' dbo)"
      and root: "root g' = RootOk"
      and files: "\<forall>p. lookup g' p = (if sweepable now days g p then None else lookup g p)"
      by blast
    have rows: "\<forall>d0. dbo = Some d0 \<and> db_up d0 \<longrightarrow>
           (\<exists>d1. reflect_deletions sp g' dbo = Some d1 \<and>
              jobs d1 = map (\<lambda>r. case filename r of
                                   None \<Rightarrow> r
                                 | Some fn \<Rightarrow>
                                     if fn \<noteq> [] \<and> lookup g' (path_join sp fn) = None
                                     then r\<lparr>status := Deleted\<rparr> else r) (jobs d0))"
      using reflect_deletions_rows [OF root, of _ sp] by auto
    from run files rows show "\<exists>g' dbo'.
        cleanup_local_storage sp days now (g, dbo) =
          Inr ([''deleted'' \<mapsto> PyInt (int (length (filter (sweepable now days g) (map fst (files g)))))],
               g', dbo') \<and>
        (\<forall>p. lookup g' p = (if sweepable now days g p then None else lookup g p)) \<and>
        (\<forall>d0. dbo = Some d0 \<and> db_up d0 \<longrightarrow>
           (\<exists>d1. dbo' = Some d1 \<and>
              jobs d1 = map (\<lambda>r. case filename r of
                                   None \<Rightarrow> r
                                 | Some fn \<Rightarrow>
                                     if fn \<noteq> [] \<and> lookup g' (path_join sp fn) = None
                                     then r\<lparr>status := Deleted\<rparr> else r) (jobs d0)))"
      by (intro exI [of _ g'] exI [of _ "reflect_deletions sp g' dbo"] conjI)
  qed
qed

lemmas ex_defs = regular_file_def done_job_def ex_now_def ex_fs_def ex_db_def edge_fs_def
  edge_db_def

lemmas worker_defs = cleanup_local_storage_bak_def select_done_jobs_def cleanup_job_def
  os_path_isdir_root_def os_path_isfile_def os_path_getmtime_def os_path_getsize_def os_stat_def
  os_remove_def lookup_def cutoff_ts_def float_overflows_def dec_user_storage_def
  commit_job_status_def
  update_user_storage_def truthy_int_def or_int_def coalesce_def greatest_def AList.delete_eq

lemmas current_defs = cleanup_local_storage_def timedelta_days_def datetime_sub_def iterdir_def
  cleanup_entry_def path_is_file_def lookup_def os_stat_def datetime_fromtimestamp_def
  datetime_min_def datetime_max_def os_remove_def skip_or_raise_def reflect_deletions_def
  AList.delete_eq

lemmas vocab_defs = sweepable_def removable_def age_def retention_threshold_def job_swept_def
  swept_jobs_def done_jobs_def reclaimed_def owned_swept_def file_size_def balance_def

lemmas faulty_defs = faulty_fs_def faulty_db_def regular_file_def done_job_def ex_now_def

text \<open>
  The example of the specification: files of one day and of ten days, a threshold of
  seven days.  In the worker variant the ten-day file goes, its job is marked, the owner's
  100 bytes drop by the 8 bytes of the file, and the one-day file stays.  In the current
  variant, run with the same tables, the ten-day file goes, its job is marked, and the
  one-day file stays.
\<close>

theorem sweep_deletes_exactly_expired_witness:
  "(\<exists>f' d'.
      cleanup_local_storage_bak 7 ex_now (ex_fs, ex_db) = Inr ([''deleted'' \<mapsto> PyInt 1], f', d') \<and>
      lookup f' ''/data/storage/old.txt'' = None \<and>
      lookup f' ''/data/storage/young.txt'' = lookup ex_fs ''/data/storage/young.txt'' \<and>
      map status (jobs d') = [Done, Deleted] \<and>
      balance d' 1 = 92) \<and>
   (\<exists>g' d1.
      cleanup_local_storage ''/data/storage'' 7 ex_now (ex_fs, Some ex_db) =
        Inr ([''deleted'' \<mapsto> PyInt 1], g', Some d1) \<and>
      lookup g' ''/data/storage/old.txt'' = None \<and>
      lookup g' ''/data/storage/young.txt'' = lookup ex_fs ''/data/storage/young.txt'' \<and>
      map status (jobs d1) = [Done, Deleted])"
proof -
  have w: "distinct (map job_id (jobs ex_db))" "distinct (job_files (done_jobs ex_db))"
    "distinct (map fst (files ex_fs))"
    by (simp_all add: ex_defs done_jobs_def)
  have wl: "loop_runs_bak 7 ex_fs ex_db"
    by (simp add: loop_runs_bak_def float_overflows_def os_path_isdir_root_def ex_defs)
  have cl: "loop_runs ex_now 7 ex_fs"
    by (simp add: loop_runs_def cutoff_representable_def quiet_def raises_other_def ex_defs
        datetime_min_def datetime_max_def)
  have up: "db_up ex_db"
    by (simp add: ex_db_def)
  have old: "sweepable ex_now 7 ex_fs ''/data/storage/old.txt''"
    and young: "\<not> sweepable ex_now 7 ex_fs ''/data/storage/young.txt''"
    by (simp_all add: vocab_defs lookup_def ex_defs)
  have sw: "swept_jobs ex_now 7 ex_fs (done_jobs ex_db) = [done_job ''old'' 1 ''/data/storage/old.txt'']"
    using old young by (simp add: swept_jobs_def done_jobs_def job_swept_def ex_db_def done_job_def)
  have own: "owned_swept ex_now 7 ex_fs (done_jobs ex_db) 1 = [done_job ''old'' 1 ''/data/storage/old.txt'']"
    using old young by (simp add: owned_swept_def done_jobs_def job_swept_def ex_db_def done_job_def)
  have rec: "reclaimed ex_now 7 ex_fs (done_jobs ex_db) 1 = 8"
    unfolding reclaimed_def own
    by (simp add: done_job_def file_size_def lookup_def ex_fs_def regular_file_def)
  have bal: "balance ex_db 1 = 100"
    by (simp add: balance_def ex_db_def coalesce_def)
  have inj: "''/data/storage/old.txt'' \<in> set (job_files (done_jobs ex_db))"
    by (simp add: done_jobs_def ex_db_def done_job_def)
  have cnt: "length (filter (sweepable ex_now 7 ex_fs) (map fst (files ex_fs))) = 1"
    using old young by (simp add: ex_fs_def)
  from sweep_deletes_exactly_expired [OF w, of 7 ex_now ex_fs "''/data/storage''" "Some ex_db"] wl cl up
  obtain f' d' g' d1 where
    run: "cleanup_local_storage_bak 7 ex_now (ex_fs, ex_db) = Inr ([''deleted'' \<mapsto> PyInt 1], f', d')"
    and files: "\<And>p. lookup f' p =
         (if p \<in> set (job_files (done_jobs ex_db)) \<and> p \<noteq> [] \<and> sweepable ex_now 7 ex_fs p then None
          else lookup ex_fs p)"
    and rows: "jobs d' =
        map (\<lambda>j. if status j = Done \<and> job_swept ex_now 7 ex_fs j then j\<lparr>status := Deleted\<rparr> else j)
          (jobs ex_db)"
    and ledger: "\<And>u. balance d' u =
         (if owned_swept ex_now 7 ex_fs (done_jobs ex_db) u = [] then balance ex_db u
          else greatest (balance ex_db u - reclaimed ex_now 7 ex_fs (done_jobs ex_db) u) 0)"
    and cur: "cleanup_local_storage ''/data/storage'' 7 ex_now (ex_fs, Some ex_db) =
        Inr ([''deleted'' \<mapsto> PyInt 1], g', Some d1)"
    and cfiles: "\<And>p. lookup g' p = (if sweepable ex_now 7 ex_fs p then None else lookup ex_fs p)"
    and crows: "jobs d1 = map (\<lambda>r. case filename r of
                                   None \<Rightarrow> r
                                 | Some fn \<Rightarrow>
                                     if fn \<noteq> [] \<and> lookup g' (path_join ''/data/storage'' fn) = None
                                     then r\<lparr>status := Deleted\<rparr> else r) (jobs ex_db)"
    unfolding sw cnt by auto
  have a1: "lookup f' ''/data/storage/old.txt'' = None"
    using files [of "''/data/storage/old.txt''"] old inj by simp
  have a2: "lookup f' ''/data/storage/young.txt'' = lookup ex_fs ''/data/storage/young.txt''"
    using files [of "''/data/storage/young.txt''"] young by simp
  have a3: "map status (jobs d') = [Done, Deleted]"
    unfolding rows using old young by (simp add: job_swept_def ex_db_def done_job_def)
  have a4: "balance d' 1 = 92"
    using ledger [of 1] rec bal own by (simp add: greatest_def)
  have b1: "lookup g' ''/data/storage/old.txt'' = None"
    using cfiles [of "''/data/storage/old.txt''"] old by simp
  have b2: "lookup g' ''/data/storage/young.txt'' = lookup ex_fs ''/data/storage/young.txt''"
    using cfiles [of "''/data/storage/young.txt''"] young by simp
  have b3: "map status (jobs d1) = [Done, Deleted]"
    unfolding crows using b1 b2
    by (simp add: ex_db_def done_job_def path_join_def) (simp add: lookup_def ex_fs_def)
  show ?thesis
  proof (intro conjI)
    show "\<exists>f' d'.
      cleanup_local_storage_bak 7 ex_now (ex_fs, ex_db) = Inr ([''deleted'' \<mapsto> PyInt 1], f', d') \<and>
      lookup f' ''/data/storage/old.txt'' = None \<and>
      lookup f' ''/data/storage/young.txt'' = lookup ex_fs ''/data/storage/young.txt'' \<and>
      map status (jobs d') = [Done, Deleted] \<and>
      balance d' 1 = 92"
      using run a1 a2 a3 a4 by (intro exI [of _ f'] exI [of _ d'] conjI)
    show "\<exists>g' d1.
      cleanup_local_storage ''/data/storage'' 7 ex_now (ex_fs, Some ex_db) =
        Inr ([''deleted'' \<mapsto> PyInt 1], g', Some d1) \<and>
      lookup g' ''/data/storage/old.txt'' = None \<and>
      lookup g' ''/data/storage/young.txt'' = lookup ex_fs ''/data/storage/young.txt'' \<and>
      map status (jobs d1) = [Done, Deleted]"
      using cur b1 b2 b3 by (intro exI [of _ g'] exI [of _ d1] conjI)
  qed
qed

text \<open>
  Against claim C1 as stated, sweeps in which a stored file whose age is at least the
  threshold is not deleted, or in which a file is deleted and its job or its owner's
  ledger is not updated.
  \<^item> A file whose age equals the threshold of seven days is kept by both variants, which
    compare \<^verbatim>\<open>mtime < cutoff\<close>.
  \<^item> The worker variant keeps the ten-day file when the job that names it does not have
    the status \<^verbatim>\<open>done\<close>, when the database does not answer, and when the cutoff cannot be
    computed (a retention period of \<^verbatim>\<open>-2**1024\<close> days, for which every file is older than
    the threshold).
  \<^item> Both variants keep a ten-day file that cannot be unlinked.
  \<^item> The current variant raises, and deletes nothing, when its cutoff date is not
    representable; it keeps a ten-day file that comes after an entry whose \<^verbatim>\<open>stat\<close>
    raises an input/output error; with its database down it deletes the ten-day file and
    leaves the job \<^verbatim>\<open>done\<close>; and with its database up it deletes the ten-day file of 8
    bytes and leaves the owner's ledger at 100.
  \<^item> When two jobs with status \<^verbatim>\<open>done\<close> name the same file, the worker variant deletes
    the file and marks the first of them only.
\<close>

theorem sweep_keeps_or_forgets_expired_files:
  "age ex_now (regular_file (ex_now - 7 * 86400) ''edge'') = retention_threshold 7 \<and>
   cleanup_local_storage_bak 7 ex_now (edge_fs, edge_db) =
     Inr ([''deleted'' \<mapsto> PyInt 0], edge_fs, edge_db) \<and>
   cleanup_local_storage ''/data/storage'' 7 ex_now (edge_fs, None) =
     Inr ([''deleted'' \<mapsto> PyInt 0], edge_fs, None) \<and>
   cleanup_local_storage_bak 7 ex_now (ex_fs, settled_db) =
     Inr ([''deleted'' \<mapsto> PyInt 0], ex_fs, settled_db) \<and>
   cleanup_local_storage_bak 7 ex_now (ex_fs, ex_db\<lparr>db_up := False\<rparr>) =
     Inr ([''error'' \<mapsto> PyStr ''database unavailable''], ex_fs, ex_db\<lparr>db_up := False\<rparr>) \<and>
   cleanup_local_storage_bak (- (2 ^ 1024)) ex_now (ex_fs, ex_db) =
     Inr ([''error'' \<mapsto> PyStr ''int too large to convert to float''], ex_fs, ex_db) \<and>
   (case cleanup_local_storage_bak 7 ex_now (faulty_fs, faulty_db) of
      Inl e \<Rightarrow> False
    | Inr (res, f', d') \<Rightarrow>
        lookup f' ''/data/storage/locked.txt'' = lookup faulty_fs ''/data/storage/locked.txt'') \<and>
   (case cleanup_local_storage ''/data/storage'' 7 ex_now (faulty_fs, None) of
      Inl e \<Rightarrow> False
    | Inr (res, g', dbo') \<Rightarrow>
        lookup g' ''/data/storage/locked.txt'' = lookup faulty_fs ''/data/storage/locked.txt'') \<and>
   lookup faulty_fs ''/data/storage/locked.txt'' \<noteq> None \<and>
   cleanup_local_storage ''/data/storage'' (- 1000000000) ex_now (ex_fs, None) = Inl OverflowError \<and>
   (case cleanup_local_storage ''/data/storage'' 7 ex_now (eio_fs, None) of
      Inl e \<Rightarrow> False
    | Inr (res, g', dbo') \<Rightarrow>
        lookup g' ''/data/storage/e.txt'' = lookup eio_fs ''/data/storage/e.txt'') \<and>
   lookup eio_fs ''/data/storage/e.txt'' \<noteq> None \<and>
   (case cleanup_local_storage ''/data/storage'' 7 ex_now (ex_fs, Some (ex_db\<lparr>db_up := False\<rparr>)) of
      Inl e \<Rightarrow> False
    | Inr (res, g', dbo') \<Rightarrow>
        lookup g' ''/data/storage/old.txt'' = None \<and>
        map_option (\<lambda>d'. map status (jobs d')) dbo' = Some [Done, Done]) \<and>
   (case cleanup_local_storage ''/data/storage'' 7 ex_now (ex_fs, Some ex_db) of
      Inl e \<Rightarrow> False
    | Inr (res, g', dbo') \<Rightarrow>
        lookup g' ''/data/storage/old.txt'' = None \<and>
        map_option (\<lambda>d'. balance d' 1) dbo' = Some 100) \<and>
   file_size ex_fs (Some ''/data/storage/old.txt'') = 8 \<and>
   (case cleanup_local_storage_bak 7 ex_now (ex_fs, twice_db) of
      Inl e \<Rightarrow> False
    | Inr (res, f', d') \<Rightarrow>
        lookup f' ''/data/storage/old.txt'' = None \<and> map status (jobs d') = [Deleted, Done])"
  by (simp add: ex_defs settled_db_def twice_db_def faulty_defs eio_fs_def worker_defs
      current_defs age_def retention_threshold_def file_size_def balance_def)


section \<open>A retention period of zero or less\<close>

text \<open>
  Claim C5 asks that a sweep with a retention period of zero or less does not delete what
  was just written.  The current variant tests \<^verbatim>\<open>RETENTION_DAYS <= 0\<close> and then does nothing
  about it: with a period of 0 it removes a file written one second before the sweep, and
  with a period of \<open>-1\<close> a file written at the very moment of the sweep.
\<close>

theorem nonpositive_retention_deletes_fresh_files:
  "cleanup_local_storage ''/data/storage'' 0 ex_now
     (\<lparr>root = RootOk, medium = Writable,
       files = [(''/data/storage/fresh.txt'', regular_file (ex_now - 1) ''just written'')]\<rparr>, None) =
   Inr ([''deleted'' \<mapsto> PyInt 1], \<lparr>root = RootOk, medium = Writable, files = []\<rparr>, None) \<and>
   cleanup_local_storage ''/data/storage'' (- 1) ex_now
     (\<lparr>root = RootOk, medium = Writable,
       files = [(''/data/storage/fresh.txt'', regular_file ex_now ''just written'')]\<rparr>, None) =
   Inr ([''deleted'' \<mapsto> PyInt 1], \<lparr>root = RootOk, medium = Writable, files = []\<rparr>, None)"
  by (simp add: ex_defs current_defs)

section \<open>What a sweep returns\<close>






text \<open>
  The current variant computes its cutoff before the \<^verbatim>\<open>try\<close>: a retention period that
  takes the cutoff before the year 1 raises to the caller.
\<close>

lemma current_sweep_raises_on_unrepresentable_cutoff:
  "cleanup_local_storage ''/data/storage'' 800000 ex_now (ex_fs, None) = Inl OverflowError"
  by (simp add: ex_defs current_defs)


section \<open>Candidates that fail\<close>

lemma faulty_not_sweepable: "lookup f p = Some m \<Longrightarrow> faulty m \<Longrightarrow> \<not> sweepable now days f p"
  by (auto simp: sweepable_def removable_def faulty_def)

lemma current_sweep_closed':
  assumes "root g = RootOk" and "cutoff_representable now days"
    and "quiet (now - days * 86400) g"
    and "distinct (map fst (files g))"
  shows "\<exists>g'. cleanup_local_storage sp days now (g, dbo) =
       Inr ([''deleted'' \<mapsto> PyInt (int (length (filter (sweepable now days g) (map fst (files g)))))],
            g', reflect_deletions sp g' dbo) \<and>
     (\<forall>p. lookup g' p = (if sweepable now days g p then None else lookup g p)) \<and>
     length (files g') + length (filter (sweepable now days g) (map fst (files g))) = length (files g)"
proof -
  let ?qs = "filter (sweepable now days g) (map fst (files g))"
  have "lookup (fold rm_path ?qs g) p = (if sweepable now days g p then None else lookup g p)" for p
    by (auto simp: lookup_fold_rm_path dest: sweepable_in_keys)
  moreover have "length (files (fold rm_path ?qs g)) + length ?qs = length (files g)"
    using assms(4) by (intro length_fold_rm_path) (auto simp: distinct_map_filter)
  ultimately show ?thesis
    using current_sweep_closed [OF assms, of sp dbo] by blast
qed

text \<open>
  What holds of claim C9.  In the worker variant, whatever faults the entries carry, the
  sweep runs to its end and returns \<^verbatim>\<open>{"deleted": n}\<close>, where \<open>n\<close> is the number of entries
  that are gone afterwards; every candidate whose examination or removal raises is still in
  place, unchanged; and every candidate that is sweepable is gone, whatever happened to
  the others.  The current variant does the same as long as no entry raises an exception
  other than the two its handler names, \<^verbatim>\<open>FileNotFoundError\<close> and \<^verbatim>\<open>PermissionError\<close>.
\<close>

lemma sweep_skips_handled_failures:
  assumes "\<not> float_overflows (days * 86400)"
    and "os_path_isdir_root f" and "db_up d" and "distinct (job_files (done_jobs d))"
    and "distinct (map fst (files f))"
    and "root g = RootOk" and "cutoff_representable now days"
    and "quiet (now - days * 86400) g"
    and "distinct (map fst (files g))"
  shows "(\<exists>n f' d'.
      cleanup_local_storage_bak days now (f, d) = Inr ([''deleted'' \<mapsto> PyInt (int n)], f', d') \<and>
      length (files f') + n = length (files f) \<and>
      (\<forall>p m. lookup f p = Some m \<and> faulty m \<longrightarrow> lookup f' p = Some m) \<and>
      (\<forall>p. p \<in> set (job_files (done_jobs d)) \<and> p \<noteq> [] \<and> sweepable now days f p \<longrightarrow>
           lookup f' p = None)) \<and>
    (\<exists>n g' dbo'.
      cleanup_local_storage sp days now (g, dbo) = Inr ([''deleted'' \<mapsto> PyInt (int n)], g', dbo') \<and>
      length (files g') + n = length (files g) \<and>
      (\<forall>p m. lookup g p = Some m \<and> faulty m \<longrightarrow> lookup g' p = Some m) \<and>
      (\<forall>p. sweepable now days g p \<longrightarrow> lookup g' p = None))"
proof (rule conjI)
  let ?sw = "swept_jobs now days f (done_jobs d)"
  have run: "cleanup_local_storage_bak days now (f, d) =
      Inr ([''deleted'' \<mapsto> PyInt (int (length ?sw))], rm_all ?sw f, settle_all f ?sw d)"
    using assms(1,2,3,4) by (rule worker_sweep_closed)
  have count: "length (files (rm_all ?sw f)) + length ?sw = length (files f)"
    using assms(4,5) by (rule worker_sweep_count)
  have files: "lookup (rm_all ?sw f) p =
       (if p \<in> set (job_files (done_jobs d)) \<and> p \<noteq> [] \<and> sweepable now days f p then None
        else lookup f p)" for p
    by (simp add: lookup_rm_all job_files_swept)
  have kept: "\<forall>p m. lookup f p = Some m \<and> faulty m \<longrightarrow> lookup (rm_all ?sw f) p = Some m"
    using files faulty_not_sweepable by auto
  have gone: "\<forall>p. p \<in> set (job_files (done_jobs d)) \<and> p \<noteq> [] \<and> sweepable now days f p \<longrightarrow>
      lookup (rm_all ?sw f) p = None"
    using files by simp
  from run count kept gone
  show "\<exists>n f' d'.
      cleanup_local_storage_bak days now (f, d) = Inr ([''deleted'' \<mapsto> PyInt (int n)], f', d') \<and>
      length (files f') + n = length (files f) \<and>
      (\<forall>p m. lookup f p = Some m \<and> faulty m \<longrightarrow> lookup f' p = Some m) \<and>
      (\<forall>p. p \<in> set (job_files (done_jobs d)) \<and> p \<noteq> [] \<and> sweepable now days f p \<longrightarrow>
           lookup f' p = None)"
    by blast
next
  let ?n = "length (filter (sweepable now days g) (map fst (files g)))"
  from current_sweep_closed' [OF assms(6-9), of sp dbo]
  obtain g' where run: "cleanup_local_storage sp days now (g, dbo) =
       Inr ([''deleted'' \<mapsto> PyInt (int ?n)], g', reflect_deletions sp g' dbo)"
    and files: "\<And>p. lookup g' p = (if sweepable now days g p then None else lookup g p)"
    and count: "length (files g') + ?n = length (files g)"
    by blast
  have kept: "\<forall>p m. lookup g p = Some m \<and> faulty m \<longrightarrow> lookup g' p = Some m"
    using files faulty_not_sweepable by auto
  have gone: "\<forall>p. sweepable now days g p \<longrightarrow> lookup g' p = None"
    using files by simp
  from run count kept gone
  show "\<exists>n g' dbo'.
      cleanup_local_storage sp days now (g, dbo) = Inr ([''deleted'' \<mapsto> PyInt (int n)], g', dbo') \<and>
      length (files g') + n = length (files g) \<and>
      (\<forall>p m. lookup g p = Some m \<and> faulty m \<longrightarrow> lookup g' p = Some m) \<and>
      (\<forall>p. sweepable now days g p \<longrightarrow> lookup g' p = None)"
    by blast
qed

text \<open>
  Claim C9 asks that a failure on one candidate does not end the sweep, that the other
  eligible files are still deleted and that the count is the number of deletions.  The
  current variant's inner handler names two classes of exception, and its outer handler,
  written for a storage path that cannot be read, answers every other exception with
  \<^verbatim>\<open>return {"deleted": 0}\<close>.  Here the directory holds three files of ten days, and the
  \<^verbatim>\<open>stat\<close> of the second raises an \<^verbatim>\<open>OSError\<close> that is neither of the two (an
  input/output error): the first file is removed, the loop ends, the third file stays
  although it is eligible, and the result says that nothing was deleted.  The worker
  variant, on the same directory, skips the second file, removes the other two and answers
  \<^verbatim>\<open>{"deleted": 2}\<close>.
\<close>

theorem other_exception_ends_current_sweep:
  "cleanup_local_storage ''/data/storage'' 7 ex_now (eio_fs, None) =
     Inr ([''deleted'' \<mapsto> PyInt 0],
       \<lparr>root = RootOk, medium = Writable,
         files = [(''/data/storage/bad.txt'',
                     (regular_file (ex_now - 864000) ''bb'')\<lparr>stat_raises := Some (OSError ''Input/output error'')\<rparr>),
                  (''/data/storage/e.txt'', regular_file (ex_now - 864000) ''eeeeee'')]\<rparr>, None) \<and>
   sweepable ex_now 7 eio_fs ''/data/storage/e.txt'' \<and>
   (case cleanup_local_storage_bak 7 ex_now (eio_fs, eio_db) of
      Inl e \<Rightarrow> False
    | Inr (res, f', d') \<Rightarrow>
        res = [''deleted'' \<mapsto> PyInt 2] \<and>
        map fst (files f') = [''/data/storage/bad.txt''])"
  by (simp add: ex_defs eio_fs_def eio_db_def worker_defs current_defs vocab_defs)


section \<open>The life cycle of a job\<close>

lemma process_task_split:
  "process_task sd rl up now st later text jid owner s =
     (case process_task_start sd now st text jid owner s of
        (Some e, states, d1) \<Rightarrow> (Inl e, last states, d1)
      | (None, states, d1) \<Rightarrow> process_task_end sd rl up later jid owner (last states, d1))"
  by (cases s)
     (auto simp: process_task_def process_task_start_def process_task_end_def Let_def
       write_in_place_def split: sum.splits prod.splits option.splits)

lemma marked_refl: "list_all2 marked js js"
  by (simp add: list_all2_refl marked_def)

lemma marked_trans: "list_all2 marked a b \<Longrightarrow> list_all2 marked b c \<Longrightarrow> list_all2 marked a c"
proof -
  have "marked x y \<Longrightarrow> marked y z \<Longrightarrow> marked x z" for x y z
    by (auto simp: marked_def)
  then show "list_all2 marked a b \<Longrightarrow> list_all2 marked b c \<Longrightarrow> list_all2 marked a c"
    by (rule list_all2_trans)
qed

lemma marked_map: "list_all2 marked js (map (\<lambda>r. if P r then r\<lparr>status := Deleted\<rparr> else r) js)"
  by (simp add: list_all2_map2 list_all2_refl marked_def)

lemma cleanup_job_marks:
  "cleanup_job c j (f, d, n) = (f', d', n') \<Longrightarrow> list_all2 marked (jobs d) (jobs d')"
  by (auto simp: cleanup_job_def dec_user_storage_def commit_job_status_def marked_refl marked_map
      split: option.splits sum.splits if_splits)

lemma cleanup_jobs_marks:
  "cleanup_jobs c js (f, d, n) = (f', d', n') \<Longrightarrow> list_all2 marked (jobs d) (jobs d')"
proof (induction js arbitrary: f d n)
  case Nil
  then show ?case by (simp add: marked_refl)
next
  case (Cons j js)
  obtain f1 d1 n1 where step: "cleanup_job c j (f, d, n) = (f1, d1, n1)"
    by (metis prod_cases3)
  with Cons.prems have "cleanup_jobs c js (f1, d1, n1) = (f', d', n')" by simp
  from cleanup_job_marks [OF step] Cons.IH [OF this] show ?case
    by (rule marked_trans)
qed

lemma worker_sweep_marks:
  "cleanup_local_storage_bak days now (f, d) = Inr (res, f', d') \<Longrightarrow>
     list_all2 marked (jobs d) (jobs d')"
  by (auto simp: cleanup_local_storage_bak_def cutoff_ts_def select_done_jobs_def marked_refl
      split: if_splits prod.splits dest: cleanup_jobs_marks)

lemma cleanup_job_without_jobs:
  "without_jobs (cleanup_job c j (f, d, n)) = without_jobs (cleanup_job c j (f, d\<lparr>jobs := J\<rparr>, n))"
  by (auto simp: without_jobs_def cleanup_job_def dec_user_storage_def commit_job_status_def
      split: option.splits sum.splits)

lemma cleanup_jobs_without_jobs:
  "without_jobs (cleanup_jobs c js (f, d, n)) = without_jobs (cleanup_jobs c js (f, d\<lparr>jobs := J\<rparr>, n))"
proof (induction js arbitrary: f d n J)
  case Nil
  then show ?case by (simp add: without_jobs_def)
next
  case (Cons j js)
  obtain f1 d1 n1 where a: "cleanup_job c j (f, d, n) = (f1, d1, n1)"
    by (metis prod_cases3)
  obtain f2 d2 n2 where b: "cleanup_job c j (f, d\<lparr>jobs := J\<rparr>, n) = (f2, d2, n2)"
    by (metis prod_cases3)
  from cleanup_job_without_jobs [of c j f d n J] a b
  have eq: "f2 = f1" "n2 = n1" "d2\<lparr>jobs := []\<rparr> = d1\<lparr>jobs := []\<rparr>"
    by (simp_all add: without_jobs_def)
  then have "d2 = d1\<lparr>jobs := jobs d2\<rparr>"
    by (metis db.surjective db.update_convs(3))
  with Cons.IH [of f1 d1 n1 "jobs d2"] a b eq show ?case
    by simp
qed

lemma done_of_undeleted:
  "filter (\<lambda>j. status j = Done) (filter (\<lambda>j. status j \<noteq> Deleted) js) =
   filter (\<lambda>j. status j = Done) js"
  by (induction js) auto

lemma worker_sweep_ignores_deleted:
  "\<exists>res f' d' d''.
     cleanup_local_storage_bak days now (f, d) = Inr (res, f', d') \<and>
     cleanup_local_storage_bak days now
       (f, d\<lparr>jobs := filter (\<lambda>j. status j \<noteq> Deleted) (jobs d)\<rparr>) = Inr (res, f', d'') \<and>
     users d'' = users d'"
proof (cases "\<not> float_overflows (days * 86400) \<and> os_path_isdir_root f \<and> db_up d")
  case False
  then show ?thesis
    by (auto simp: cleanup_local_storage_bak_def cutoff_ts_def select_done_jobs_def)
next
  case True
  let ?J = "filter (\<lambda>j. status j \<noteq> Deleted) (jobs d)"
  let ?js = "filter (\<lambda>j. status j = Done) (jobs d)"
  have same: "filter (\<lambda>j. status j = Done) ?J = ?js"
    by (rule done_of_undeleted)
  obtain f1 d1 n1 where a: "cleanup_jobs (now - days * 86400) ?js (f, d, 0) = (f1, d1, n1)"
    by (metis prod_cases3)
  obtain f2 d2 n2 where b: "cleanup_jobs (now - days * 86400) ?js (f, d\<lparr>jobs := ?J\<rparr>, 0) = (f2, d2, n2)"
    by (metis prod_cases3)
  from cleanup_jobs_without_jobs [of "now - days * 86400" ?js f d 0 ?J] a b
  have eq: "f2 = f1" "n2 = n1" "d2\<lparr>jobs := []\<rparr> = d1\<lparr>jobs := []\<rparr>"
    by (simp_all add: without_jobs_def)
  from eq(3) have "users d2 = users d1"
    by (metis db.select_convs(2) db.surjective db.update_convs(3))
  with True a b eq(1,2) same show ?thesis
    by (simp add: cleanup_local_storage_bak_def cutoff_ts_def select_done_jobs_def)
qed

lemma delete_file_marks:
  "delete_file executes jid uid (f, d) = (r, f', d') \<Longrightarrow> list_all2 marked (jobs d) (jobs d')"
  by (auto simp: delete_file_def marked_refl marked_map
      split: option.splits sum.splits if_splits prod.splits)

lemma reflect_deletions_marks:
  "reflect_deletions sp g (Some d) = Some d' \<Longrightarrow> list_all2 marked (jobs d) (jobs d')"
  by (auto simp: reflect_deletions_def marked_refl list_all2_map2 list_all2_refl marked_def
      split: if_splits option.splits)

lemma current_sweep_marks:
  "cleanup_local_storage sp days now (f, Some d) = Inr (res, f', dbo') \<Longrightarrow>
     \<exists>d'. dbo' = Some d' \<and> list_all2 marked (jobs d) (jobs d')"
proof -
  assume run: "cleanup_local_storage sp days now (f, Some d) = Inr (res, f', dbo')"
  have refl: "\<exists>d'. reflect_deletions sp g (Some d) = Some d' \<and> list_all2 marked (jobs d) (jobs d')" for g
    using reflect_deletions_marks [of sp g d]
    by (cases "reflect_deletions sp g (Some d)") (auto simp: reflect_deletions_def split: if_splits)
  from run show ?thesis
    by (auto simp: cleanup_local_storage_def marked_refl refl
        split: sum.splits prod.splits option.splits)
qed

lemma rows_forward_iff:
  "rows_forward js js' \<longleftrightarrow>
     length js \<le> length js' \<and>
     (\<forall>i < length js. job_id (js' ! i) = job_id (js ! i) \<and> forward (status (js ! i)) (status (js' ! i)))"
  by (auto simp: rows_forward_def list_all_iff)

lemma forward_refl: "forward s s"
  by (simp add: forward_def)

lemma forward_trans: "forward a b \<Longrightarrow> forward b c \<Longrightarrow> forward a c"
  by (auto simp: forward_def)

lemma forward_Deleted: "forward s Deleted"
  by (cases s) (simp_all add: forward_def)

lemma rows_forward_refl: "rows_forward js js"
  by (simp add: rows_forward_iff forward_refl)

lemma rows_forward_trans:
  "rows_forward a b \<Longrightarrow> rows_forward b c \<Longrightarrow> rows_forward a c"
  unfolding rows_forward_iff by (auto intro: forward_trans)

lemma marked_rows_forward:
  assumes "list_all2 marked js js'"
  shows "rows_forward js js'"
proof -
  have len: "length js \<le> length js'"
    using assms by (simp add: list_all2_lengthD)
  have "job_id (js' ! i) = job_id (js ! i) \<and> forward (status (js ! i)) (status (js' ! i))"
    if "i < length js" for i
  proof -
    from assms that have "marked (js ! i) (js' ! i)"
      by (rule list_all2_nthD)
    then show ?thesis
      by (auto simp: marked_def forward_refl forward_Deleted)
  qed
  with len show ?thesis
    by (simp add: rows_forward_iff)
qed

lemma marked_keeps_deleted:
  assumes "list_all2 marked js js'"
  shows "length js' = length js \<and>
     list_all (\<lambda>i. status (js ! i) = Deleted \<longrightarrow> js' ! i = js ! i) [0..<length js]"
proof -
  have "js' ! i = js ! i" if "i < length js" "status (js ! i) = Deleted" for i
  proof -
    from assms that(1) have "marked (js ! i) (js' ! i)"
      by (rule list_all2_nthD)
    with that(2) show ?thesis
      by (auto simp: marked_def)
  qed
  with assms show ?thesis
    by (auto simp: list_all_iff list_all2_lengthD)
qed

lemma extends_rows_forward:
  assumes "extends js js'"
  shows "rows_forward js js'"
proof -
  from assms have t: "take (length js) js' = js"
    by (simp add: extends_def)
  from arg_cong [OF t, of length] have len: "length js \<le> length js'"
    by simp
  have "js' ! i = js ! i" if "i < length js" for i
    using nth_take [OF that, of js'] t by simp
  with len show ?thesis
    by (simp add: rows_forward_iff forward_refl)
qed

lemma process_task_start_extends:
  "process_task_start sd now st text jid owner (f, d) = (err, states, d') \<Longrightarrow>
     extends (jobs d) (jobs d')"
  by (auto simp: process_task_start_def Let_def insert_job_def extends_def
      split: sum.splits prod.splits if_splits)

lemma process_task_end_jobs:
  "process_task_end sd rl up later jid owner (f, d) = (r, f', d') \<Longrightarrow>
     jobs d' = jobs d \<or>
     (\<exists>sz. jobs d' = map (\<lambda>j. if job_id j = jid
                 then j\<lparr>size_bytes := Some sz, status := Done, processed_at := Some later\<rparr>
                 else j) (jobs d))"
  by (auto simp: process_task_end_def Let_def inc_user_storage_def finish_job_def
      split: sum.splits prod.splits if_splits)

lemma finish_rows_forward:
  assumes "list_all (\<lambda>row. job_id row = jid \<longrightarrow>
        status row = Created \<or> status row = Processing \<or> status row = Done) js"
  shows "rows_forward js (map (\<lambda>j. if job_id j = jid
                 then j\<lparr>size_bytes := Some sz, status := Done, processed_at := Some t\<rparr>
                 else j) js)"
  using assms by (auto simp: rows_forward_iff list_all_length forward_def)

lemma apply_event_forward:
  assumes "finds_live e d"
  shows "rows_forward (jobs d) (jobs (snd (apply_event e (f, d))))"
proof (cases e)
  case (ProcessStart env payload jid owner)
  obtain err states d' where run: "process_task_start (storage_dir env) (started env) (stamp env)
      payload jid owner (f, d) = (err, states, d')"
    by (metis prod_cases3)
  from process_task_start_extends [OF run] run ProcessStart show ?thesis
    by (simp add: extends_rows_forward)
next
  case (ProcessEnd env jid owner)
  obtain r f' d' where run: "process_task_end (storage_dir env) (remove_local env) (uploaded env)
      (finished env) jid owner (f, d) = (r, f', d')"
    by (metis prod_cases3)
  from assms ProcessEnd have live: "list_all (\<lambda>row. job_id row = jid \<longrightarrow>
        status row = Created \<or> status row = Processing \<or> status row = Done) (jobs d)"
    by simp
  from process_task_end_jobs [OF run] have "rows_forward (jobs d) (jobs d')"
    using finish_rows_forward [OF live] rows_forward_refl by auto
  with run ProcessEnd show ?thesis
    by simp
next
  case (DeleteFile executes jid uid)
  obtain r f' d' where run: "delete_file executes jid uid (f, d) = (r, f', d')"
    by (metis prod_cases3)
  from delete_file_marks [OF run] run DeleteFile show ?thesis
    by (simp add: marked_rows_forward)
next
  case (Sweep days now)
  show ?thesis
  proof (cases "cleanup_local_storage_bak days now (f, d)")
    case (Inl x)
    with Sweep show ?thesis by (simp add: marked_rows_forward marked_refl)
  next
    case (Inr y)
    obtain res f' d' where y: "y = (res, f', d')"
      by (metis prod_cases3)
    from worker_sweep_marks [OF Inr [unfolded y]] Inr y Sweep show ?thesis
      by (simp add: marked_rows_forward)
  qed
next
  case (SweepCurrent sp days now)
  show ?thesis
  proof (cases "cleanup_local_storage sp days now (f, Some d)")
    case (Inl x)
    with SweepCurrent show ?thesis by (simp add: marked_rows_forward marked_refl)
  next
    case (Inr y)
    obtain res f' dbo' where y: "y = (res, f', dbo')"
      by (metis prod_cases3)
    from current_sweep_marks [OF Inr [unfolded y]] obtain d' where
      "dbo' = Some d'" "list_all2 marked (jobs d) (jobs d')" by blast
    with Inr y SweepCurrent show ?thesis
      by (simp add: marked_rows_forward)
  qed
qed

lemma run_events_forward:
  "undisturbed evs (f, d) \<Longrightarrow> rows_forward (jobs d) (jobs (snd (run_events evs (f, d))))"
proof (induction evs arbitrary: f d)
  case Nil
  then show ?case by (simp add: marked_rows_forward marked_refl)
next
  case (Cons e evs)
  obtain f1 d1 where step: "apply_event e (f, d) = (f1, d1)"
    by (cases "apply_event e (f, d)")
  from Cons.prems have live: "finds_live e d" and rest: "undisturbed evs (f1, d1)"
    by (simp_all add: step)
  from apply_event_forward [OF live, of f] step have "rows_forward (jobs d) (jobs d1)"
    by simp
  moreover from Cons.IH [OF rest] have "rows_forward (jobs d1) (jobs (snd (run_events evs (f1, d1))))" .
  ultimately show ?case
    by (simp add: step) (rule rows_forward_trans)
qed

text \<open>
  Claim C7, as amended.  A sweep of the worker variant leaves every row whose status is
  \<^verbatim>\<open>deleted\<close> exactly as it was, and what it returns, what it does to the files and what
  it does to the ledger are what the same sweep does on the table without the deleted rows:
  a deleted job is not processed and nothing is decremented for it.  And take any sequence
  of sweeps of either variant, delete requests, first halves and second halves of runs of
  the worker, in any order, in which every second half finds its job \<^verbatim>\<open>created\<close>,
  \<^verbatim>\<open>processing\<close> or \<^verbatim>\<open>done\<close>: every row of the table keeps its place and its job id, and
  its status only moves forward, from \<^verbatim>\<open>created\<close> or \<^verbatim>\<open>processing\<close> to \<^verbatim>\<open>done\<close> or
  \<^verbatim>\<open>failed\<close> to \<^verbatim>\<open>deleted\<close>.  Sweeps, delete requests and first halves are under no
  condition.
\<close>

theorem deleted_jobs_are_final:
  "(\<exists>res f' d' d''.
      cleanup_local_storage_bak days now (f, d) = Inr (res, f', d') \<and>
      cleanup_local_storage_bak days now
        (f, d\<lparr>jobs := filter (\<lambda>j. status j \<noteq> Deleted) (jobs d)\<rparr>) = Inr (res, f', d'') \<and>
      users d'' = users d' \<and>
      length (jobs d') = length (jobs d) \<and>
      list_all (\<lambda>i. status (jobs d ! i) = Deleted \<longrightarrow> jobs d' ! i = jobs d ! i)
        [0..<length (jobs d)]) \<and>
   (undisturbed evs (f, d) \<longrightarrow>
      rows_forward (jobs d) (jobs (snd (run_events evs (f, d)))))"
proof (rule conjI)
  from worker_sweep_ignores_deleted [of days now f d] obtain res f' d' d'' where
    run: "cleanup_local_storage_bak days now (f, d) = Inr (res, f', d')"
    and same: "cleanup_local_storage_bak days now
        (f, d\<lparr>jobs := filter (\<lambda>j. status j \<noteq> Deleted) (jobs d)\<rparr>) = Inr (res, f', d'')"
      "users d'' = users d'"
    by blast
  from marked_keeps_deleted [OF worker_sweep_marks [OF run]] run same
  show "\<exists>res f' d' d''.
      cleanup_local_storage_bak days now (f, d) = Inr (res, f', d') \<and>
      cleanup_local_storage_bak days now
        (f, d\<lparr>jobs := filter (\<lambda>j. status j \<noteq> Deleted) (jobs d)\<rparr>) = Inr (res, f', d'') \<and>
      users d'' = users d' \<and>
      length (jobs d') = length (jobs d) \<and>
      list_all (\<lambda>i. status (jobs d ! i) = Deleted \<longrightarrow> jobs d' ! i = jobs d ! i)
        [0..<length (jobs d)]"
    by blast
next
  show "undisturbed evs (f, d) \<longrightarrow> rows_forward (jobs d) (jobs (snd (run_events evs (f, d))))"
    using run_events_forward by blast
qed

text \<open>
  The example's tables with the ten-day file restored by hand: the sweep leaves the
  deleted row, the file and the ledger alone.  And the sequence of five operations on the
  example's state: a sweep, a whole run of the worker, a delete request, a sweep.
\<close>

theorem deleted_jobs_are_final_witness:
  "(\<exists>res f' d'.
      cleanup_local_storage_bak 7 ex_now (ex_fs, settled_db) = Inr (res, f', d') \<and>
      jobs d' ! 1 = jobs settled_db ! 1 \<and>
      lookup f' ''/data/storage/old.txt'' = lookup ex_fs ''/data/storage/old.txt'' \<and>
      balance d' 1 = 100) \<and>
   rows_forward (jobs ex_db) (jobs (snd (run_events ex_events (ex_fs, ex_db)))) \<and>
   map status (jobs (snd (run_events ex_events (ex_fs, ex_db)))) = [Deleted, Deleted, Deleted]"
proof (intro conjI)
  from deleted_jobs_are_final [of 7 ex_now ex_fs settled_db "[]"]
  obtain res f' d' where
    run: "cleanup_local_storage_bak 7 ex_now (ex_fs, settled_db) = Inr (res, f', d')"
    and kept: "list_all (\<lambda>i. status (jobs settled_db ! i) = Deleted \<longrightarrow>
        jobs d' ! i = jobs settled_db ! i) [0..<length (jobs settled_db)]"
    by blast
  have "cleanup_local_storage_bak 7 ex_now (ex_fs, settled_db) =
      Inr ([''deleted'' \<mapsto> PyInt 0], ex_fs, settled_db)"
    by (simp add: settled_db_def ex_defs worker_defs)
  with run have same: "f' = ex_fs" "d' = settled_db"
    by simp_all
  have "status (jobs settled_db ! 1) = Deleted" "(1::nat) \<in> set [0..<length (jobs settled_db)]"
    by (simp_all add: settled_db_def)
  with kept have row: "jobs d' ! 1 = jobs settled_db ! 1"
    by (auto simp: list_all_iff)
  have bal: "balance settled_db 1 = 100"
    by (simp add: balance_def settled_db_def coalesce_def)
  show "\<exists>res f' d'.
      cleanup_local_storage_bak 7 ex_now (ex_fs, settled_db) = Inr (res, f', d') \<and>
      jobs d' ! 1 = jobs settled_db ! 1 \<and>
      lookup f' ''/data/storage/old.txt'' = lookup ex_fs ''/data/storage/old.txt'' \<and>
      balance d' 1 = 100"
    using run row bal same by (intro exI [of _ res] exI [of _ f'] exI [of _ d'] conjI) simp_all
next
  have "undisturbed ex_events (ex_fs, ex_db)"
    by code_simp
  with deleted_jobs_are_final [of 7 ex_now ex_fs ex_db ex_events]
  show "rows_forward (jobs ex_db) (jobs (snd (run_events ex_events (ex_fs, ex_db))))"
    by blast
next
  show "map status (jobs (snd (run_events ex_events (ex_fs, ex_db)))) = [Deleted, Deleted, Deleted]"
    by code_simp
qed

text \<open>
  Against claim C7 as stated: a delete request that arrives while the worker sleeps.  The
  first half of \<^verbatim>\<open>process_task\<close> commits the row with the status \<^verbatim>\<open>processing\<close>, the owner's
  delete request sets it to \<^verbatim>\<open>deleted\<close>, and the second half of \<^verbatim>\<open>process_task\<close> sets it
  to \<^verbatim>\<open>done\<close>: the status has gone back from \<^verbatim>\<open>deleted\<close> to \<^verbatim>\<open>done\<close>.
\<close>

theorem deleted_job_is_set_back_to_done:
  "map status (race_rows 1) = [Processing] \<and>
   map status (race_rows 2) = [Deleted] \<and>
   map status (race_rows 3) = [Done] \<and>
   \<not> rows_forward (jobs (snd (run_events (take 2 race_events) (ex_fs, ex_db))))
       (jobs (snd (run_events race_events (ex_fs, ex_db))))"
  by code_simp


section \<open>Jobs without owner\<close>

lemma lookup_put: "lookup (put f p t c) q =
   (if q = p then Some \<lparr>kind = RegularFile, mtime = t, content = c, stat_raises = None,
       unlink_raises = None\<rparr> else lookup f q)"
  by (simp add: lookup_def put_def update_conv')

lemma filter_other_id:
  "i \<noteq> jid \<Longrightarrow>
   filter (\<lambda>row. job_id row = jid)
     (map (\<lambda>r. if job_id r = i then r\<lparr>status := st\<rparr> else r) js) =
   filter (\<lambda>row. job_id row = jid) js"
  by (induction js) auto

lemma cleanup_job_other:
  assumes "job_id j \<noteq> jid" and "filename j \<noteq> Some fname"
    and "cleanup_job c j (f, d, n) = (f', d', n')"
  shows "lookup f' fname = lookup f fname \<and> rows_of jid d' = rows_of jid d"
  using assms
  by (auto simp: cleanup_job_def rows_of_def os_remove_def lookup_def delete_conv'
      dec_user_storage_def commit_job_status_def filter_other_id
      split: option.splits sum.splits if_splits)

lemma cleanup_jobs_other:
  assumes "\<forall>j \<in> set js. job_id j \<noteq> jid \<and> filename j \<noteq> Some fname"
    and "cleanup_jobs c js (f, d, n) = (f', d', n')"
  shows "lookup f' fname = lookup f fname \<and> rows_of jid d' = rows_of jid d"
  using assms
proof (induction js arbitrary: f d n)
  case Nil
  then show ?case by simp
next
  case (Cons j js)
  obtain f1 d1 n1 where step: "cleanup_job c j (f, d, n) = (f1, d1, n1)"
    by (metis prod_cases3)
  from Cons.prems(1) have j: "job_id j \<noteq> jid" "filename j \<noteq> Some fname"
    and rest: "\<forall>j \<in> set js. job_id j \<noteq> jid \<and> filename j \<noteq> Some fname"
    by simp_all
  from Cons.prems(2) step have "cleanup_jobs c js (f1, d1, n1) = (f', d', n')"
    by simp
  from Cons.IH [OF rest this] cleanup_job_other [OF j step] show ?case
    by simp
qed

lemma marked_unnamed:
  assumes "list_all2 marked js js'" and "list_all P js"
    and "\<And>r. P r \<Longrightarrow> P (r\<lparr>status := Deleted\<rparr>)"
  shows "list_all P js'"
proof -
  have "P (js' ! i)" if "i < length js'" for i
  proof -
    from assms(1) have len: "length js = length js'"
      by (rule list_all2_lengthD)
    with that assms(1) have "marked (js ! i) (js' ! i)"
      by (simp add: list_all2_nthD)
    moreover from assms(2) that len have "P (js ! i)"
      by (simp add: list_all_length)
    ultimately show ?thesis
      using assms(3) by (auto simp: marked_def)
  qed
  then show ?thesis
    by (simp add: list_all_length)
qed

lemma worker_sweep_other:
  assumes "unnamed jid fname d"
    and "cleanup_local_storage_bak days now (f, d) = Inr (res, f', d')"
  shows "lookup f' fname = lookup f fname \<and> rows_of jid d' = rows_of jid d \<and> unnamed jid fname d'"
proof -
  from worker_sweep_marks [OF assms(2)] have m: "list_all2 marked (jobs d) (jobs d')" .
  have u: "unnamed jid fname d'"
    unfolding unnamed_def using m assms(1) [unfolded unnamed_def]
    by (rule marked_unnamed) simp
  have sel: "\<forall>j \<in> set (filter (\<lambda>j. status j = Done) (jobs d)).
      job_id j \<noteq> jid \<and> filename j \<noteq> Some fname"
    using assms(1) by (auto simp: unnamed_def list_all_iff)
  from assms(2) have "lookup f' fname = lookup f fname \<and> rows_of jid d' = rows_of jid d"
    by (auto simp: cleanup_local_storage_bak_def cutoff_ts_def select_done_jobs_def
        split: if_splits prod.splits dest: cleanup_jobs_other [OF sel])
  with u show ?thesis by simp
qed

lemma sweeps_other:
  assumes "unnamed jid fname d"
    and "run_events (sweeps_of xs) (f, d) = (f', d')"
  shows "lookup f' fname = lookup f fname \<and> rows_of jid d' = rows_of jid d"
  using assms
proof (induction xs arbitrary: f d)
  case Nil
  then show ?case by (simp add: sweeps_of_def)
next
  case (Cons x xs)
  obtain days now where x: "x = (days, now)"
    by (cases x)
  obtain res f1 d1 where run: "cleanup_local_storage_bak days now (f, d) = Inr (res, f1, d1)"
    using worker_sweep_result [of days now f d] by blast
  from worker_sweep_other [OF Cons.prems(1) run]
  have keep: "lookup f1 fname = lookup f fname" "rows_of jid d1 = rows_of jid d" "unnamed jid fname d1"
    by simp_all
  from Cons.prems(2) x run have "run_events (sweeps_of xs) (f1, d1) = (f', d')"
    by (simp add: sweeps_of_def)
  from Cons.IH [OF keep(3) this] keep(1,2) show ?case
    by simp
qed

lemma accepted_put: "accepted (put f p t c) data = accepted f data"
  by (simp add: accepted_def put_def)

lemma write_in_place_done:
  assumes "write_in_place f p t data = (None, states)"
  shows "lookup (last states) p =
     Some \<lparr>kind = RegularFile, mtime = t, content = data, stat_raises = None, unlink_raises = None\<rparr>"
proof -
  from assms obtain f1 where f1: "open_w f p t = Inr f1"
    by (auto simp: write_in_place_def split: sum.splits)
  then have put: "f1 = put f p t []"
    by (auto simp: open_w_def split: if_splits option.splits)
  have le: "accepted f1 data \<le> length data"
    by (simp add: accepted_def split: medium.splits)
  obtain err sts where ws: "write_states f1 p t data = (err, sts)"
    by (cases "write_states f1 p t data")
  with assms f1 have err: "err = None" and states: "states = f # f1 # sts"
    by (simp_all add: write_in_place_def)
  from ws err have "\<not> accepted f1 data < length data"
    by (auto simp: write_states_def split: if_splits)
  with le have full: "accepted f1 data = length data"
    by simp
  from ws have sts: "sts = map (\<lambda>k. put f1 p t (take k data)) [1..<Suc (length data)]"
    unfolding write_states_def full by simp
  show ?thesis
  proof (cases "data = []")
    case True
    with states sts put show ?thesis by (simp add: lookup_put)
  next
    case False
    then have ne: "[1..<Suc (length data)] \<noteq> []" by (cases data) simp_all
    have "last states = last sts"
      unfolding states using ne sts by simp
    also have "\<dots> = put f1 p t (take (last [1..<Suc (length data)]) data)"
      unfolding sts using ne by (rule last_map)
    also have "last [1..<Suc (length data)] = length data"
      using False by (cases data) simp_all
    finally show ?thesis by (simp add: lookup_put)
  qed
qed

lemma process_task_anonymous:
  assumes "\<not> truthy_int owner"
    and "process_task sd rl up now st later text jid owner (f, d) = (r, f1, d1)"
  shows "users d1 = users d \<and>
     (jobs d1 = jobs d \<or>
      jobs d1 = jobs d @ [\<lparr>job_id = jid, owner_id = owner,
          filename = Some (os_path_join sd (jid @ ''.txt'')), size_bytes = Some 0,
          status = Processing, created_at = now, processed_at = None\<rparr>])"
  using assms
  by (auto simp: process_task_def Let_def insert_job_def
      split: sum.splits prod.splits option.splits if_splits)

lemma process_task_file:
  assumes "\<not> truthy_int owner" and "\<not> (up \<and> rl)"
    and "process_task sd rl up now st later text jid owner (f, d) = (Inr res, f1, d1)"
  shows "lookup f1 (os_path_join sd (jid @ ''.txt'')) =
     Some \<lparr>kind = RegularFile, mtime = now, content = task_file_content jid st text,
       stat_raises = None, unlink_raises = None\<rparr>"
proof -
  from assms(3) obtain f0 states where
    "write_in_place f0 (os_path_join sd (jid @ ''.txt'')) now (task_file_content jid st text) =
       (None, states)" and "f1 = last states"
    using assms(1,2)
    by (auto simp: process_task_def Let_def split: sum.splits prod.splits option.splits if_splits)
  with write_in_place_done show ?thesis by simp
qed

text \<open>
  Claim C10.  Let the worker process a job without owner (\<^verbatim>\<open>owner_id\<close> absent or 0)
  under a job id that is new to the table, while no finished job names the job's file.
  Then the job's row, if the database took it, has the status \<^verbatim>\<open>processing\<close>, the size 0
  of its creation and no \<^verbatim>\<open>processed_at\<close>; no ledger entry has changed; when the run
  returns and does not remove the local copy after an upload, the file is in place with
  the payload.  And after any number of sweeps of the worker variant, at any times and
  with any retention periods, the row is as it was and the file is where it was: the
  sweeper never reclaims it.
\<close>

theorem anonymous_job_is_never_swept:
  assumes "\<not> truthy_int owner"
    and "jid \<notin> set (map job_id (jobs d))"
    and "list_all (\<lambda>row. status row = Done \<longrightarrow>
           filename row \<noteq> Some (os_path_join sd (jid @ ''.txt''))) (jobs d)"
    and "process_task sd rl up now st later text jid owner (f, d) = (r, f1, d1)"
    and "run_events (sweeps_of sweeps) (f1, d1) = (f2, d2)"
  shows "list_all (\<lambda>row. status row = Processing \<and> size_bytes row = Some 0 \<and>
            processed_at row = None) (rows_of jid d1) \<and>
    users d1 = users d \<and>
    (\<not> isl r \<and> \<not> (up \<and> rl) \<longrightarrow>
       (\<exists>n. lookup f1 (os_path_join sd (jid @ ''.txt'')) = Some n \<and>
            content n = task_file_content jid st text)) \<and>
    rows_of jid d2 = rows_of jid d1 \<and>
    lookup f2 (os_path_join sd (jid @ ''.txt'')) = lookup f1 (os_path_join sd (jid @ ''.txt''))"
proof -
  let ?fname = "os_path_join sd (jid @ ''.txt'')"
  let ?new = "\<lparr>job_id = jid, owner_id = owner, filename = Some ?fname, size_bytes = Some 0,
          status = Processing, created_at = now, processed_at = None\<rparr>"
  from process_task_anonymous [OF assms(1,4)]
  have us: "users d1 = users d" and js: "jobs d1 = jobs d \<or> jobs d1 = jobs d @ [?new]"
    by simp_all
  have none: "filter (\<lambda>row. job_id row = jid) (jobs d) = []"
    using assms(2) by (auto simp: filter_empty_conv)
  from js none have rows: "rows_of jid d1 = [] \<or> rows_of jid d1 = [?new]"
    by (auto simp: rows_of_def)
  then have a: "list_all (\<lambda>row. status row = Processing \<and> size_bytes row = Some 0 \<and>
            processed_at row = None) (rows_of jid d1)"
    by auto
  have old: "list_all (\<lambda>row. status row = Done \<longrightarrow> job_id row \<noteq> jid \<and>
      filename row \<noteq> Some ?fname) (jobs d)"
    using assms(2,3) by (auto simp: list_all_iff)
  with js have "unnamed jid ?fname d1"
    by (auto simp: unnamed_def)
  from sweeps_other [OF this assms(5)]
  have b: "rows_of jid d2 = rows_of jid d1" "lookup f2 ?fname = lookup f1 ?fname"
    by simp_all
  have c: "\<not> isl r \<and> \<not> (up \<and> rl) \<longrightarrow>
       (\<exists>n. lookup f1 ?fname = Some n \<and> content n = task_file_content jid st text)"
  proof
    assume h: "\<not> isl r \<and> \<not> (up \<and> rl)"
    then obtain res where "r = Inr res"
      by (cases r) auto
    with process_task_file [OF assms(1) _ assms(4) [unfolded this]] h
    show "\<exists>n. lookup f1 ?fname = Some n \<and> content n = task_file_content jid st text"
      by auto
  qed
  from a us c b show ?thesis by blast
qed

theorem anonymous_job_is_never_swept_witness:
  "list_all (\<lambda>row. status row = Processing \<and> size_bytes row = Some 0 \<and> processed_at row = None)
     (rows_of ''anon'' (snd (snd anon_run))) \<and>
   length (rows_of ''anon'' (snd (snd anon_run))) = 1 \<and>
   rows_of ''anon'' (snd anon_swept) = rows_of ''anon'' (snd (snd anon_run)) \<and>
   lookup (fst anon_swept) ''/data/storage/anon.txt'' =
     lookup (fst (snd anon_run)) ''/data/storage/anon.txt'' \<and>
   map fst (files (fst (snd anon_run))) =
     [''/data/storage/young.txt'', ''/data/storage/old.txt'', ''/data/storage/anon.txt''] \<and>
   map fst (files (fst anon_swept)) = [''/data/storage/anon.txt'']"
proof -
  have anon: "\<not> truthy_int None"
    by (simp add: truthy_int_def)
  have fresh: "''anon'' \<notin> set (map job_id (jobs ex_db))"
    by (simp add: ex_db_def done_job_def)
  have path: "os_path_join ''/data/storage'' (''anon'' @ ''.txt'') = ''/data/storage/anon.txt''"
    by (simp add: os_path_join_def)
  have unnamed: "list_all (\<lambda>row. status row = Done \<longrightarrow>
      filename row \<noteq> Some (os_path_join ''/data/storage'' (''anon'' @ ''.txt''))) (jobs ex_db)"
    unfolding path by (simp add: ex_db_def done_job_def)
  have run: "process_task ''/data/storage'' False False (ex_now + 5) ''2023-11-14T22:13:25+00:00''
     (ex_now + 6) ''hi'' ''anon'' None (ex_fs, ex_db) =
       (fst anon_run, fst (snd anon_run), snd (snd anon_run))"
    by (simp add: anon_run_def)
  have swept: "run_events (sweeps_of [(7, ex_now + 8640000), (0, ex_now + 17280000)])
      (fst (snd anon_run), snd (snd anon_run)) = (fst anon_swept, snd anon_swept)"
    by (simp add: anon_swept_def)
  have one: "length (rows_of ''anon'' (snd (snd anon_run))) = 1"
    by code_simp
  have before: "map fst (files (fst (snd anon_run))) =
     [''/data/storage/young.txt'', ''/data/storage/old.txt'', ''/data/storage/anon.txt'']"
    by code_simp
  have after: "map fst (files (fst anon_swept)) = [''/data/storage/anon.txt'']"
    by code_simp
  from anonymous_job_is_never_swept [OF anon fresh unnamed run swept] one before after
  show ?thesis
    unfolding path by simp
qed


section \<open>Properties of the Payload Store\<close>

lemma final_path_txt: "\<exists>pre. final_path sp uuid prefix = pre @ ''.txt''"
proof -
  let ?n = "or_str prefix uuid @ ''.txt''"
  have "path_join sp ?n = ?n \<or> path_join sp ?n = (sp @ ''/'' @ or_str prefix uuid) @ ''.txt''"
    by (simp add: path_join_def)
  then show ?thesis
    unfolding final_path_def by metis
qed

lemma with_suffix_txt:
  "\<exists>tmp pre. with_suffix (stem @ ''.txt'') ''.tmp'' = Inr tmp \<and> tmp = pre @ ''.tmp''"
  by (simp add: with_suffix_def path_name_def Let_def)

lemma tmp_differs: "pre @ ''.tmp'' \<noteq> stem @ ''.txt''"
proof
  assume "pre @ ''.tmp'' = stem @ ''.txt''"
  then have "last (pre @ ''.tmp'') = last (stem @ ''.txt'')"
    by simp
  then show False by simp
qed

lemma with_suffix_final:
  "\<exists>tmp. with_suffix (final_path sp uuid prefix) ''.tmp'' = Inr tmp \<and>
     tmp \<noteq> final_path sp uuid prefix"
proof -
  obtain stem where fp: "final_path sp uuid prefix = stem @ ''.txt''"
    using final_path_txt by blast
  obtain tmp pre where "with_suffix (stem @ ''.txt'') ''.tmp'' = Inr tmp" "tmp = pre @ ''.tmp''"
    using with_suffix_txt by blast
  with fp tmp_differs [of pre stem] show ?thesis by auto
qed

lemma lookup_put_other: "q \<noteq> p \<Longrightarrow> lookup (put f p t c) q = lookup f q"
  by (simp add: lookup_put)

lemma open_w_other:
  "open_w f p t = Inr f1 \<Longrightarrow> q \<noteq> p \<Longrightarrow> lookup f1 q = lookup f q"
  by (auto simp: open_w_def lookup_put split: if_splits option.splits)

lemma open_w_put: "open_w f p t = Inr f1 \<Longrightarrow> f1 = put f p t []"
  by (auto simp: open_w_def split: if_splits option.splits)

lemma write_states_other:
  assumes "write_states f1 p t data = (err, sts)" and "q \<noteq> p"
  shows "list_all (\<lambda>s. lookup s q = lookup f1 q) sts"
  using assms by (auto simp: write_states_def list_all_iff lookup_put)

lemma write_states_last:
  assumes "write_states f1 p t data = (None, sts)"
  shows "lookup (last (f1 # sts)) p = lookup (put f1 p t data) p \<or>
     (data = [] \<and> last (f1 # sts) = f1)"
proof -
  have le: "accepted f1 data \<le> length data"
    by (simp add: accepted_def split: medium.splits)
  from assms have "\<not> accepted f1 data < length data"
    by (auto simp: write_states_def split: if_splits)
  with le have full: "accepted f1 data = length data"
    by simp
  from assms have sts: "sts = map (\<lambda>k. put f1 p t (take k data)) [1..<Suc (length data)]"
    unfolding write_states_def full by simp
  show ?thesis
  proof (cases "data = []")
    case True
    with sts show ?thesis by simp
  next
    case False
    then have ne: "[1..<Suc (length data)] \<noteq> []" by (cases data) simp_all
    have "last (f1 # sts) = last sts"
      using ne sts by simp
    also have "\<dots> = put f1 p t (take (last [1..<Suc (length data)]) data)"
      unfolding sts using ne by (rule last_map)
    also have "last [1..<Suc (length data)] = length data"
      using False by (cases data) simp_all
    finally show ?thesis by simp
  qed
qed

lemma path_replace_target:
  assumes "path_replace g src dst = Inr g'" and "lookup g src = Some n"
  shows "lookup g' dst = (if dst = src then None else Some n)"
  using assms
  by (auto simp: path_replace_def lookup_def delete_conv' update_conv'
      split: option.splits if_splits)

lemma write_then_replace_trace:
  assumes "write_then_replace f tmp fp t data = (err, states)" and "tmp \<noteq> fp"
  shows "states \<noteq> [] \<and> hd states = f \<and>
     list_all (untouched_or_complete f fp data) states \<and>
     (case err of
        None \<Rightarrow>
          lookup (last states) fp = Some \<lparr>kind = RegularFile, mtime = t, content = data,
            stat_raises = None, unlink_raises = None\<rparr> \<and>
          lookup (last states) tmp = None
      | Some e \<Rightarrow> list_all (\<lambda>s. lookup s fp = lookup f fp) states)"
proof (cases "open_w f tmp t")
  case (Inl e)
  with assms(1) show ?thesis
    by (auto simp: write_then_replace_def untouched_or_complete_def)
next
  case (Inr f1)
  note f1 = open_w_other [OF Inr, of fp] open_w_put [OF Inr]
  obtain werr sts where ws: "write_states f1 tmp t data = (werr, sts)"
    by (cases "write_states f1 tmp t data")
  from write_states_other [OF ws, of fp] assms(2) f1(1)
  have mid: "list_all (\<lambda>s. lookup s fp = lookup f fp) sts"
    by (simp add: list_all_iff)
  have pre: "list_all (\<lambda>s. lookup s fp = lookup f fp) (f # f1 # sts)"
    using mid f1(1) assms(2) by simp
  show ?thesis
  proof (cases werr)
    case (Some e)
    with assms(1) Inr ws have "err = Some e" "states = f # f1 # sts"
      by (simp_all add: write_then_replace_def)
    with pre show ?thesis
      by (auto simp: untouched_or_complete_def list_all_iff)
  next
    case None
    let ?g = "last (f1 # sts)"
    have src: "lookup ?g tmp = Some \<lparr>kind = RegularFile, mtime = t, content = data,
        stat_raises = None, unlink_raises = None\<rparr>"
      using write_states_last [OF ws [unfolded None]] f1(2) by (auto simp: lookup_put)
    show ?thesis
    proof (cases "path_replace ?g tmp fp")
      case (Inl e)
      with assms(1) Inr ws None have "err = Some e" "states = f # f1 # sts"
        by (simp_all add: write_then_replace_def)
      with pre show ?thesis
        by (auto simp: untouched_or_complete_def list_all_iff)
    next
      case (Inr f2)
      with assms(1) \<open>open_w f tmp t = Inr f1\<close> ws None
      have res: "err = None" "states = f # f1 # sts @ [f2]"
        by (simp_all add: write_then_replace_def)
      from path_replace_target [OF Inr src] assms(2)
      have tgt: "lookup f2 fp = Some \<lparr>kind = RegularFile, mtime = t, content = data,
          stat_raises = None, unlink_raises = None\<rparr>"
        by simp
      from Inr src have gone: "lookup f2 tmp = None"
        by (auto simp: path_replace_def lookup_def delete_conv' split: option.splits if_splits)
      from res pre tgt gone show ?thesis
        by (auto simp: untouched_or_complete_def list_all_iff holds_payload_def)
    qed
  qed
qed

lemma save_job_payload_trace:
  assumes "save_job_payload sp uuid now payload owner prefix (f, dbo) = (r, states, dbo')"
  shows "states \<noteq> [] \<and> hd states = f \<and>
     list_all (untouched_or_complete f (final_path sp uuid prefix) payload) states \<and>
     (lookup f (final_path sp uuid prefix) = None \<longrightarrow>
        list_all (\<lambda>s. lookup s (final_path sp uuid prefix) = None \<or>
                     holds_payload s (final_path sp uuid prefix) payload) states) \<and>
     (case r of
        Inl e \<Rightarrow> list_all (\<lambda>s. lookup s (final_path sp uuid prefix) =
                               lookup f (final_path sp uuid prefix)) states
      | Inr res \<Rightarrow>
          holds_payload (last states) (final_path sp uuid prefix) payload \<and>
          res ''size_bytes'' = Some (PyInt (int (length payload))))"
proof -
  let ?fp = "final_path sp uuid prefix"
  obtain tmp where tmp: "with_suffix ?fp ''.tmp'' = Inr tmp" "tmp \<noteq> ?fp"
    using with_suffix_final by blast
  obtain err sts where w: "write_then_replace f tmp ?fp now payload = (err, sts)"
    by (cases "write_then_replace f tmp ?fp now payload")
  note tr = write_then_replace_trace [OF w tmp(2)]
  have fp: "path_join sp (or_str prefix uuid @ ''.txt'') = ?fp"
    by (simp add: final_path_def)
  have main: "states = sts \<and>
     (case r of
        Inl e \<Rightarrow> list_all (\<lambda>s. lookup s ?fp = lookup f ?fp) states
      | Inr res \<Rightarrow> holds_payload (last states) ?fp payload \<and>
          res ''size_bytes'' = Some (PyInt (int (length payload))))"
  proof (cases err)
    case (Some e)
    with assms tmp(1) w have "r = Inl e" "states = sts"
      by (simp_all add: save_job_payload_def Let_def fp)
    with tr Some show ?thesis by simp
  next
    case None
    with tr have node: "lookup (last sts) ?fp = Some \<lparr>kind = RegularFile, mtime = now,
        content = payload, stat_raises = None, unlink_raises = None\<rparr>"
      by simp
    then have sz: "os_path_getsize (last sts) ?fp = Inr (int (length payload))"
      by (simp add: os_path_getsize_def os_stat_def)
    with assms tmp(1) w None
    have "r = Inr [''job_id'' \<mapsto> PyStr uuid, ''filename'' \<mapsto> PyStr (or_str prefix uuid @ ''.txt''),
        ''size_bytes'' \<mapsto> PyInt (int (length payload))]" "states = sts"
      by (simp_all add: save_job_payload_def Let_def fp)
    with node show ?thesis
      by (simp add: holds_payload_def)
  qed
  with tr have a: "states \<noteq> []" "hd states = f"
    and b: "list_all (untouched_or_complete f ?fp payload) states"
    by simp_all
  from b have c: "lookup f ?fp = None \<longrightarrow>
        list_all (\<lambda>s. lookup s ?fp = None \<or> holds_payload s ?fp payload) states"
    by (auto simp: list_all_iff untouched_or_complete_def)
  from a b c main show ?thesis by blast
qed

text \<open>
  The worker variant's \<^verbatim>\<open>process_task\<close> has no temporary path: it opens the job's file
  at its final path and writes into it.  When the run returns and keeps the local copy,
  the file holds the whole text.
\<close>

lemma process_task_leaves_file:
  assumes "\<not> (up \<and> rl)"
    and "process_task sd rl up now st later body jid owner (f, d) = (Inr res, f1, d1)"
  shows "holds_payload f1 (os_path_join sd (jid @ ''.txt'')) (task_file_content jid st body)"
proof -
  from assms(2) obtain f0 states where
    "write_in_place f0 (os_path_join sd (jid @ ''.txt'')) now (task_file_content jid st body) =
       (None, states)" and "f1 = last states"
    using assms(1)
    by (auto simp: process_task_def Let_def split: sum.splits prod.splits option.splits if_splits)
  with write_in_place_done show ?thesis by (simp add: holds_payload_def)
qed

text \<open>
  Claim C4, as amended.  Current variant: for every payload, owner and name hint, the
  file system passes, from the call of \<^verbatim>\<open>save_job_payload\<close> to its return, through states
  that start with the state of the call and in each of which the final location is either
  as it was before the call or a regular file holding the whole payload; the bytes reach
  the temporary path, which differs from the final one, and the rename puts them in place
  in one step.  When the final location did not exist before, a reader finds at every
  moment no file or the complete payload.  When the save returns, the final location holds
  the payload and the returned size is its length; when it raises, the final location was
  never touched.  Worker variant: when \<^verbatim>\<open>process_task\<close> returns and keeps the local copy,
  the job's file holds the complete text.
\<close>

theorem save_never_exposes_partial_payload:
  "(save_job_payload sp uuid now payload owner prefix (f, dbo) = (r, states, dbo') \<longrightarrow>
     states \<noteq> [] \<and> hd states = f \<and>
     list_all (untouched_or_complete f (final_path sp uuid prefix) payload) states \<and>
     (lookup f (final_path sp uuid prefix) = None \<longrightarrow>
        list_all (\<lambda>s. lookup s (final_path sp uuid prefix) = None \<or>
                     holds_payload s (final_path sp uuid prefix) payload) states) \<and>
     (case r of
        Inl e \<Rightarrow> list_all (\<lambda>s. lookup s (final_path sp uuid prefix) =
                               lookup f (final_path sp uuid prefix)) states
      | Inr res \<Rightarrow>
          holds_payload (last states) (final_path sp uuid prefix) payload \<and>
          res ''size_bytes'' = Some (PyInt (int (length payload))))) \<and>
   (process_task sd rl up t st later body jid task_owner (f, d) = (Inr out, f1, d1) \<and>
    \<not> (up \<and> rl) \<longrightarrow>
     holds_payload f1 (os_path_join sd (jid @ ''.txt'')) (task_file_content jid st body))"
proof (rule conjI; rule impI)
  assume "save_job_payload sp uuid now payload owner prefix (f, dbo) = (r, states, dbo')"
  then show "states \<noteq> [] \<and> hd states = f \<and>
     list_all (untouched_or_complete f (final_path sp uuid prefix) payload) states \<and>
     (lookup f (final_path sp uuid prefix) = None \<longrightarrow>
        list_all (\<lambda>s. lookup s (final_path sp uuid prefix) = None \<or>
                     holds_payload s (final_path sp uuid prefix) payload) states) \<and>
     (case r of
        Inl e \<Rightarrow> list_all (\<lambda>s. lookup s (final_path sp uuid prefix) =
                               lookup f (final_path sp uuid prefix)) states
      | Inr res \<Rightarrow>
          holds_payload (last states) (final_path sp uuid prefix) payload \<and>
          res ''size_bytes'' = Some (PyInt (int (length payload))))"
    by (rule save_job_payload_trace)
next
  assume "process_task sd rl up t st later body jid task_owner (f, d) = (Inr out, f1, d1) \<and>
    \<not> (up \<and> rl)"
  then show "holds_payload f1 (os_path_join sd (jid @ ''.txt'')) (task_file_content jid st body)"
    using process_task_leaves_file by blast
qed

text \<open>
  A save of \<^verbatim>\<open>hello\<close> into the example's directory passes through eight states, and in
  none of them the final location holds a part of the payload.  A run of the worker for
  the same text returns with the whole text in the job's file.
\<close>

theorem save_never_exposes_partial_payload_witness:
  "list_all (\<lambda>s. lookup s ''/data/storage/3f2b.txt'' = None \<or>
              holds_payload s ''/data/storage/3f2b.txt'' ''hello'') (fst (snd saved)) \<and>
   length (fst (snd saved)) = 8 \<and>
   holds_payload (last (fst (snd saved))) ''/data/storage/3f2b.txt'' ''hello'' \<and>
   \<not> isl (fst saved) \<and>
   \<not> isl (fst task_run) \<and>
   holds_payload (fst (snd task_run)) ''/data/storage/3f2b.txt''
     (task_file_content ''3f2b'' ''2023-11-14T22:13:25+00:00'' ''hello'')"
proof -
  have run: "save_job_payload ''/data/storage'' ''3f2b'' (ex_now + 5) ''hello'' (Some 1) None
     (ex_fs, None) = (fst saved, fst (snd saved), snd (snd saved))"
    by (simp add: saved_def)
  have fp: "final_path ''/data/storage'' ''3f2b'' None = ''/data/storage/3f2b.txt''"
    by (simp add: final_path_def path_join_def or_str_def)
  have tp: "os_path_join ''/data/storage'' (''3f2b'' @ ''.txt'') = ''/data/storage/3f2b.txt''"
    by (simp add: os_path_join_def)
  have fresh: "lookup ex_fs ''/data/storage/3f2b.txt'' = None"
    by (simp add: lookup_def ex_defs)
  have ok: "\<not> isl (fst saved)"
    by code_simp
  have len: "length (fst (snd saved)) = 8"
    by code_simp
  have tok: "\<not> isl (fst task_run)"
    by code_simp
  then obtain out where out: "fst task_run = Inr out"
    by (cases "fst task_run") auto
  have "task_run = (fst task_run, fst (snd task_run), snd (snd task_run))"
    by simp
  with out have "task_run = (Inr out, fst (snd task_run), snd (snd task_run))"
    by simp
  then have trun: "process_task ''/data/storage'' False False (ex_now + 5)
     ''2023-11-14T22:13:25+00:00'' (ex_now + 6) ''hello'' ''3f2b'' (Some 1) (ex_fs, ex_db) =
       (Inr out, fst (snd task_run), snd (snd task_run))"
    by (simp add: task_run_def)
  note inst = save_never_exposes_partial_payload [of "''/data/storage''" "''3f2b''" "ex_now + 5"
      "''hello''" "Some 1" None ex_fs None "fst saved" "fst (snd saved)" "snd (snd saved)"
      "''/data/storage''" False False "ex_now + 5" "''2023-11-14T22:13:25+00:00''" "ex_now + 6"
      "''hello''" "''3f2b''" "Some 1" ex_db out "fst (snd task_run)" "snd (snd task_run)"]
  from inst run fresh ok len have a:
    "list_all (\<lambda>s. lookup s ''/data/storage/3f2b.txt'' = None \<or>
              holds_payload s ''/data/storage/3f2b.txt'' ''hello'') (fst (snd saved)) \<and>
     length (fst (snd saved)) = 8 \<and>
     holds_payload (last (fst (snd saved))) ''/data/storage/3f2b.txt'' ''hello'' \<and>
     \<not> isl (fst saved)"
    unfolding fp by (cases "fst saved") simp_all
  from inst trun have b: "holds_payload (fst (snd task_run)) ''/data/storage/3f2b.txt''
     (task_file_content ''3f2b'' ''2023-11-14T22:13:25+00:00'' ''hello'')"
    unfolding tp by simp
  from a b tok show ?thesis by simp
qed

text \<open>
  Against claim C4 as stated: the worker variant's \<^verbatim>\<open>process_task\<close>, named by the claim,
  writes no temporary file.  In the first half of a run for the text \<^verbatim>\<open>hello\<close>, the second
  state of the file system has the job's file at its final path, created and still empty,
  and the fourth has it with the first two bytes of what is being written; the last state
  holds the whole text, and it is the state in which the run returns.
\<close>

theorem process_task_exposes_partial_file:
  "fst task_begun = None \<and>
   lookup (fst (snd task_begun) ! 0) ''/data/storage/3f2b.txt'' = None \<and>
   holds_payload (fst (snd task_begun) ! 1) ''/data/storage/3f2b.txt'' [] \<and>
   holds_payload (fst (snd task_begun) ! 3) ''/data/storage/3f2b.txt'' ''jo'' \<and>
   holds_payload (last (fst (snd task_begun))) ''/data/storage/3f2b.txt''
     (task_file_content ''3f2b'' ''2023-11-14T22:13:25+00:00'' ''hello'') \<and>
   fst (snd task_run) = last (fst (snd task_begun))"
  by code_simp


lemma write_then_replace_unwritable:
  assumes "medium f = PermissionDenied \<or> (\<exists>k. medium f = DiskFull k \<and> k < length data)"
  shows "\<exists>e states. write_then_replace f tmp fp t data = (Some e, states) \<and>
     storage_write_error e \<and> (medium f = PermissionDenied \<longrightarrow> states = [f])"
proof (cases "open_w f tmp t")
  case (Inl e)
  then have "storage_write_error e"
    by (auto simp: open_w_def split: if_splits option.splits)
  with Inl show ?thesis
    by (simp add: write_then_replace_def)
next
  case (Inr f1)
  then have m: "medium f \<noteq> PermissionDenied" and f1: "f1 = put f tmp t []"
    by (auto simp: open_w_def split: if_splits option.splits)
  with assms obtain k where k: "medium f = DiskFull k" "k < length data"
    by blast
  then have "accepted f1 data < length data"
    unfolding f1 accepted_put by (simp add: accepted_def)
  then have "fst (write_states f1 tmp t data) = Some (OSError ''No space left on device'')"
    by (simp add: write_states_def)
  then obtain sts where "write_states f1 tmp t data = (Some (OSError ''No space left on device''), sts)"
    by (cases "write_states f1 tmp t data") auto
  with Inr m show ?thesis
    by (simp add: write_then_replace_def)
qed

text \<open>
  Claim C6.  When the medium refuses to open a file for writing, or is full before the
  payload is written, \<^verbatim>\<open>save_job_payload\<close> raises a storage write error, the database is
  as it was, and the final location is never touched: in every state of the call it is
  what it was before.  With permission denied nothing at all is created; the handler
  \<^verbatim>\<open>api_enqueue\<close> answers 500.
\<close>

theorem save_fails_cleanly_when_unwritable:
  assumes "medium f = PermissionDenied \<or> (\<exists>k. medium f = DiskFull k \<and> k < length payload)"
  shows "\<exists>e states.
     save_job_payload sp uuid now payload owner prefix (f, dbo) = (Inl e, states, dbo) \<and>
     storage_write_error e \<and>
     list_all (\<lambda>s. lookup s (final_path sp uuid prefix) = lookup f (final_path sp uuid prefix))
       states \<and>
     (medium f = PermissionDenied \<longrightarrow> states = [f]) \<and>
     (prefix = None \<longrightarrow>
        api_enqueue sp uuid now payload owner (f, dbo) = (Inl Http500, last states, dbo))"
proof -
  let ?fp = "final_path sp uuid prefix"
  obtain tmp where tmp: "with_suffix ?fp ''.tmp'' = Inr tmp" "tmp \<noteq> ?fp"
    using with_suffix_final by blast
  from write_then_replace_unwritable [OF assms, of tmp ?fp now]
  obtain e states where w: "write_then_replace f tmp ?fp now payload = (Some e, states)"
    and e: "storage_write_error e" and perm: "medium f = PermissionDenied \<longrightarrow> states = [f]"
    by blast
  have fp: "path_join sp (or_str prefix uuid @ ''.txt'') = ?fp"
    by (simp add: final_path_def)
  have run: "save_job_payload sp uuid now payload owner prefix (f, dbo) = (Inl e, states, dbo)"
    using tmp(1) w by (simp add: save_job_payload_def Let_def fp)
  from write_then_replace_trace [OF w tmp(2)]
  have same: "list_all (\<lambda>s. lookup s ?fp = lookup f ?fp) states"
    by simp
  have api: "prefix = None \<longrightarrow>
      api_enqueue sp uuid now payload owner (f, dbo) = (Inl Http500, last states, dbo)"
    using run by (auto simp: api_enqueue_def)
  from run e same perm api show ?thesis by blast
qed

theorem save_fails_cleanly_when_unwritable_witness:
  "(\<exists>e states.
      save_job_payload ''/data/storage'' ''3f2b'' (ex_now + 5) ''hello'' (Some 1) None
        (ex_fs\<lparr>medium := PermissionDenied\<rparr>, None) = (Inl e, states, None) \<and>
      storage_write_error e \<and>
      states = [ex_fs\<lparr>medium := PermissionDenied\<rparr>] \<and>
      api_enqueue ''/data/storage'' ''3f2b'' (ex_now + 5) ''hello'' (Some 1)
        (ex_fs\<lparr>medium := PermissionDenied\<rparr>, None) = (Inl Http500, last states, None)) \<and>
   (\<exists>e states.
      save_job_payload ''/data/storage'' ''3f2b'' (ex_now + 5) ''hello'' (Some 1) None
        (ex_fs\<lparr>medium := DiskFull 2\<rparr>, None) = (Inl e, states, None) \<and>
      storage_write_error e \<and>
      list_all (\<lambda>s. lookup s ''/data/storage/3f2b.txt'' = None) states \<and>
      api_enqueue ''/data/storage'' ''3f2b'' (ex_now + 5) ''hello'' (Some 1)
        (ex_fs\<lparr>medium := DiskFull 2\<rparr>, None) = (Inl Http500, last states, None))"
proof (rule conjI)
  have denied: "medium (ex_fs\<lparr>medium := PermissionDenied\<rparr>) = PermissionDenied \<or>
      (\<exists>k. medium (ex_fs\<lparr>medium := PermissionDenied\<rparr>) = DiskFull k \<and> k < length ''hello'')"
    by simp
  from save_fails_cleanly_when_unwritable [OF denied, of "''/data/storage''" "''3f2b''" "ex_now + 5"
      "Some 1" None None]
  show "\<exists>e states.
      save_job_payload ''/data/storage'' ''3f2b'' (ex_now + 5) ''hello'' (Some 1) None
        (ex_fs\<lparr>medium := PermissionDenied\<rparr>, None) = (Inl e, states, None) \<and>
      storage_write_error e \<and>
      states = [ex_fs\<lparr>medium := PermissionDenied\<rparr>] \<and>
      api_enqueue ''/data/storage'' ''3f2b'' (ex_now + 5) ''hello'' (Some 1)
        (ex_fs\<lparr>medium := PermissionDenied\<rparr>, None) = (Inl Http500, last states, None)"
    by auto
next
  have fp: "final_path ''/data/storage'' ''3f2b'' None = ''/data/storage/3f2b.txt''"
    by (simp add: final_path_def path_join_def or_str_def)
  have fresh: "lookup (ex_fs\<lparr>medium := DiskFull 2\<rparr>) ''/data/storage/3f2b.txt'' = None"
    by (simp add: lookup_def ex_defs)
  have full: "medium (ex_fs\<lparr>medium := DiskFull 2\<rparr>) = PermissionDenied \<or>
      (\<exists>k. medium (ex_fs\<lparr>medium := DiskFull 2\<rparr>) = DiskFull k \<and> k < length ''hello'')"
    by simp
  from save_fails_cleanly_when_unwritable [OF full, of "''/data/storage''" "''3f2b''" "ex_now + 5"
      "Some 1" None None]
  show "\<exists>e states.
      save_job_payload ''/data/storage'' ''3f2b'' (ex_now + 5) ''hello'' (Some 1) None
        (ex_fs\<lparr>medium := DiskFull 2\<rparr>, None) = (Inl e, states, None) \<and>
      storage_write_error e \<and>
      list_all (\<lambda>s. lookup s ''/data/storage/3f2b.txt'' = None) states \<and>
      api_enqueue ''/data/storage'' ''3f2b'' (ex_now + 5) ''hello'' (Some 1)
        (ex_fs\<lparr>medium := DiskFull 2\<rparr>, None) = (Inl Http500, last states, None)"
    unfolding fp fresh by auto
qed

end
